theory Spec2Isabelle
  imports Complex_Main
begin

section \<open>The e-commerce spider of zyte-spider-templates\<close>

text \<open>
  A shallow embedding of \<^verbatim>\<open>zyte_spider_templates/spiders/ecommerce.py\<close>: the
  crawl strategy, the requests built from the links of a navigation page, their
  priorities and metadata, and the probability filter on products.

  Conventions of the embedding:
  \<^item> a Python \<^verbatim>\<open>Optional[T]\<close> is \<open>T option\<close>, and a dictionary key that may be
    absent is an \<open>option\<close> field (\<open>None\<close>: the key is absent);
  \<^item> a Python \<^verbatim>\<open>float\<close> is a finite double, taken as the real number it denotes;
    the product \<^verbatim>\<open>100 * p\<close> is the exact product rounded to the nearest double, as
    IEEE 754 arithmetic computes it, and the threshold \<^verbatim>\<open>0.1\<close> is compared exactly
    (a double is at least the double 0.1 exactly when it is at least one tenth);
  \<^item> a Python \<^verbatim>\<open>str\<close> is a \<open>string\<close>, each \<open>char\<close> standing for a code point
    below 256;
  \<^item> a generator is the list of what it yields, in order; log lines and the
    statistics counters are returned beside it.
\<close>

subsection \<open>Python primitives\<close>

text \<open>\<^verbatim>\<open>int(x)\<close> on a float truncates towards zero.\<close>

definition py_int :: "real \<Rightarrow> int" where
  "py_int x = (if x < 0 then \<lceil>x\<rceil> else \<lfloor>x\<rfloor>)"

text \<open>
  Python floats. A float is a finite IEEE 754 double, taken as the real number it
  denotes; \<open>is_double\<close> says that a real is such a value. \<open>double_round\<close> rounds a
  real to the nearest double, ties to even: 53 significant bits, and the fixed
  spacing \<open>2 powi (- 1074)\<close> below \<open>2 powi (- 1022)\<close>. \<open>py_float\<close> reads a real as
  Python reads a decimal literal; it changes nothing on a double. \<open>float_mul\<close> is
  the product of two floats, the exact product rounded once; it reads its operands
  with \<open>py_float\<close>, so that a decimal such as 0.29 stands for the double nearest to
  it. Infinities and NaN are left out: the product \<^verbatim>\<open>100 * probability\<close> overflows
  only for a probability above \<open>10 ^ 306\<close>, and \<^verbatim>\<open>int()\<close> raises on both.
\<close>

fun bit_length :: "nat \<Rightarrow> nat" where
  "bit_length n = (if n = 0 then 0 else Suc (bit_length (n div 2)))"

declare bit_length.simps [simp del]

text \<open>The binary exponent of a positive real: \<open>2 powi e \<le> x < 2 powi (e + 1)\<close>.\<close>

definition float_exponent :: "real \<Rightarrow> int" where
  "float_exponent x =
     (if 1 \<le> x then int (bit_length (nat \<lfloor>x\<rfloor>)) - 1
      else - int (bit_length (nat \<lceil>1 / x\<rceil> - 1)))"

definition float_ulp :: "real \<Rightarrow> real" where
  "float_ulp x = 2 powi (max (float_exponent \<bar>x\<bar>) (- 1022) - 52)"

definition round_half_even :: "real \<Rightarrow> int" where
  "round_half_even x =
     (let f = \<lfloor>x\<rfloor> in
      if x - of_int f < 1 / 2 then f
      else if 1 / 2 < x - of_int f then f + 1
      else if even f then f else f + 1)"

definition double_round :: "real \<Rightarrow> real" where
  "double_round x =
     (if x = 0 then 0
      else sgn x * (of_int (round_half_even (\<bar>x\<bar> / float_ulp x)) * float_ulp x))"

definition py_float :: "real \<Rightarrow> real" where
  "py_float x = double_round x"

definition is_double :: "real \<Rightarrow> bool" where
  "is_double x = (double_round x = x)"

definition float_mul :: "real \<Rightarrow> real \<Rightarrow> real" where
  "float_mul a b = double_round (py_float a * py_float b)"

text \<open>\<^verbatim>\<open>a or b\<close> on an optional number: \<^verbatim>\<open>None\<close> and zero are both falsy.\<close>

definition or_int :: "int option \<Rightarrow> int \<Rightarrow> int" where
  "or_int a b = (case a of None \<Rightarrow> b | Some v \<Rightarrow> if v = 0 then b else v)"

definition or_float :: "real option \<Rightarrow> real \<Rightarrow> real" where
  "or_float a b = (case a of None \<Rightarrow> b | Some v \<Rightarrow> if v = 0 then b else v)"

text \<open>\<^verbatim>\<open>s or ""\<close> on an optional string.\<close>

definition or_str :: "string option \<Rightarrow> string" where
  "or_str a = (case a of None \<Rightarrow> [] | Some v \<Rightarrow> if v = [] then [] else v)"

text \<open>\<^verbatim>\<open>d or {}\<close> on an optional dictionary.\<close>

type_synonym py_dict = "(string \<times> string) list"

definition or_dict :: "py_dict option \<Rightarrow> py_dict" where
  "or_dict a = (case a of None \<Rightarrow> [] | Some d \<Rightarrow> if d = [] then [] else d)"

text \<open>\<^verbatim>\<open>s.startswith(p)\<close>, \<^verbatim>\<open>sub in s\<close>, \<^verbatim>\<open>s.replace(old, new)\<close> and \<^verbatim>\<open>s.strip()\<close>.\<close>

fun startswith :: "string \<Rightarrow> string \<Rightarrow> bool" where
  "startswith s [] = True"
| "startswith [] (p # ps) = False"
| "startswith (c # cs) (p # ps) = (c = p \<and> startswith cs ps)"

fun str_contains :: "string \<Rightarrow> string \<Rightarrow> bool" where
  "str_contains [] sub = (sub = [])"
| "str_contains (c # cs) sub = (startswith (c # cs) sub \<or> str_contains cs sub)"

function str_replace :: "string \<Rightarrow> string \<Rightarrow> string \<Rightarrow> string" where
  "str_replace [] old new = (if old = [] then new else [])"
| "str_replace (c # cs) old new =
     (if old = [] then new @ c # str_replace cs old new
      else if startswith (c # cs) old
        then new @ str_replace (drop (length old - 1) cs) old new
      else c # str_replace cs old new)"
  by pat_completeness auto
termination
  by (relation "measure (\<lambda>(s, old, new). length s)") auto

definition isspace :: "char \<Rightarrow> bool" where
  "isspace c = ((of_char c :: nat) \<in> set [9, 10, 11, 12, 13, 28, 29, 30, 31, 32, 133, 160])"

definition str_strip :: "string \<Rightarrow> string" where
  "str_strip s = rev (dropWhile isspace (rev (dropWhile isspace s)))"

subsection \<open>Data model\<close>

datatype EcommerceCrawlStrategy = full | navigation | pagination_only

text \<open>
  \<^verbatim>\<open>zyte_common_items\<close>: the metadata of a link or of a product holds an optional
  probability. A \<^verbatim>\<open>ProbabilityRequest\<close> has a \<^verbatim>\<open>metadata\<close> attribute (possibly
  \<^verbatim>\<open>None\<close>), a plain \<^verbatim>\<open>Request\<close> has none; \<open>metadata_attr\<close> tells them apart for
  \<^verbatim>\<open>hasattr(request, "metadata")\<close>.
\<close>

record ProbabilityMetadata =
  probability :: "real option"

datatype metadata_attr = NoAttribute | Attribute "ProbabilityMetadata option"

record LinkRequest =
  url :: string
  name :: "string option"
  metadata :: metadata_attr

record ProductNavigation =
  page_url :: string
  items :: "LinkRequest list option"
  nextPage :: "LinkRequest option"
  subCategories :: "LinkRequest list option"

record Product =
  product_url :: string
  product_metadata :: "ProbabilityMetadata option"

text \<open>The \<^verbatim>\<open>meta\<close> dictionary of a Scrapy request, with the keys this spider writes.\<close>

record CrawlingLogs =
  log_name :: "string option"
  log_probability :: "real option"
  page_type :: string

record Meta =
  page_params :: "py_dict option"
  crawling_logs :: "CrawlingLogs option"
  allow_offsite :: "bool option"

datatype Callback = parse_navigation_callback | parse_product_callback | other_callback string

record ScrapyRequest =
  request_url :: string
  callback :: Callback
  priority :: int
  meta :: Meta

record EcommerceSpider =
  crawl_strategy :: EcommerceCrawlStrategy
  start_urls :: "string list"
  allowed_domains :: "string list"

datatype log_entry =
  IgnoringNextPage LinkRequest string
| IgnoringItem string Product

datatype py_error = IndexError

text \<open>
  Modelled from the spec: the class attribute \<^verbatim>\<open>_NEXT_PAGE_PRIORITY\<close> that
  \<^verbatim>\<open>EcommerceSpider\<close> inherits from \<^verbatim>\<open>BaseSpider\<close> (\<^verbatim>\<open>spiders/base.py\<close>); the
  specification gives the fixed pagination bias as 100.
\<close>

definition NEXT_PAGE_PRIORITY :: int where
  "NEXT_PAGE_PRIORITY = 100"

subsection \<open>Library calls\<close>

text \<open>
  \<^verbatim>\<open>get_probability()\<close> of \<^verbatim>\<open>zyte_common_items\<close>: the probability of the metadata
  when there is metadata, \<^verbatim>\<open>None\<close> otherwise.
\<close>

definition get_probability :: "LinkRequest \<Rightarrow> real option" where
  "get_probability request =
     (case metadata request of
        NoAttribute \<Rightarrow> None
      | Attribute None \<Rightarrow> None
      | Attribute (Some m) \<Rightarrow> probability m)"

definition product_get_probability :: "Product \<Rightarrow> real option" where
  "product_get_probability product =
     (case product_metadata product of None \<Rightarrow> None | Some m \<Rightarrow> probability m)"

text \<open>
  \<^verbatim>\<open>request.to_scrapy(callback=..., priority=..., meta=...)\<close> calls the constructor of
  \<^verbatim>\<open>scrapy.Request\<close> with the link's URL and the keyword arguments. A
  \<open>ScrapyRequest\<close> records the arguments of that call: \<open>request_url\<close> is the \<^verbatim>\<open>url\<close>
  argument as passed. What the constructor then does with it (it escapes the URL,
  and raises \<^verbatim>\<open>ValueError\<close> for a URL without a scheme) belongs to Scrapy and is
  not modelled; no statement below depends on the URL of a request built from a link.
\<close>

definition to_scrapy :: "LinkRequest \<Rightarrow> Callback \<Rightarrow> int \<Rightarrow> Meta \<Rightarrow> ScrapyRequest" where
  "to_scrapy request cb prio m =
     \<lparr>request_url = url request, callback = cb, priority = prio, meta = m\<rparr>"

text \<open>\<^verbatim>\<open>stats.inc_value(key)\<close> of Scrapy: add one, starting from zero.\<close>

definition inc_value :: "(string \<rightharpoonup> int) \<Rightarrow> string \<Rightarrow> (string \<rightharpoonup> int)" where
  "inc_value stats key = stats(key \<mapsto> (case stats key of None \<Rightarrow> 0 | Some v \<Rightarrow> v) + 1)"

subsection \<open>Building requests\<close>

definition get_parse_navigation_request_priority :: "LinkRequest \<Rightarrow> int" where
  "get_parse_navigation_request_priority request =
     (case metadata request of
        NoAttribute \<Rightarrow> 0
      | Attribute None \<Rightarrow> 0
      | Attribute (Some m) \<Rightarrow>
          (case probability m of None \<Rightarrow> 0 | Some p \<Rightarrow> py_int (float_mul 100 p)))"

definition get_parse_navigation_request ::
  "LinkRequest \<Rightarrow> Callback option \<Rightarrow> py_dict option \<Rightarrow> int option \<Rightarrow> string \<Rightarrow> ScrapyRequest" where
  "get_parse_navigation_request request cb params prio ptype =
     to_scrapy request
       (case cb of None \<Rightarrow> parse_navigation_callback | Some c \<Rightarrow> c)
       (or_int prio (get_parse_navigation_request_priority request))
       \<lparr>page_params = Some (or_dict params),
        crawling_logs = Some
          \<lparr>log_name = Some (or_str (name request)),
           log_probability = get_probability request,
           page_type = ptype\<rparr>,
        allow_offsite = None\<rparr>"

text \<open>
  \<^verbatim>\<open>get_subcategory_request\<close> assigns \<^verbatim>\<open>request.name\<close> in its heuristics branch, so
  it returns the link as it is after the call beside the Scrapy request.
\<close>

definition get_subcategory_request ::
  "LinkRequest \<Rightarrow> Callback option \<Rightarrow> py_dict option \<Rightarrow> int option \<Rightarrow> LinkRequest \<times> ScrapyRequest" where
  "get_subcategory_request request cb params prio =
     (let request_name = or_str (name request) in
      if \<not> str_contains request_name ''[heuristics]''
      then (request,
            get_parse_navigation_request request cb None prio ''subCategories'')
      else
        (let request' = request\<lparr>name := Some (str_strip (str_replace request_name ''[heuristics]'' ''''))\<rparr>
         in (request',
             get_parse_navigation_request request' cb params prio
               ''productNavigation-heuristics'')))"

definition get_nextpage_request ::
  "LinkRequest \<Rightarrow> Callback option \<Rightarrow> py_dict option \<Rightarrow> ScrapyRequest" where
  "get_nextpage_request request cb params =
     get_parse_navigation_request request cb params (Some NEXT_PAGE_PRIORITY) ''nextPage''"

definition get_parse_product_request_priority :: "LinkRequest \<Rightarrow> int" where
  "get_parse_product_request_priority request =
     (let p = or_float (get_probability request) 0
      in py_int (float_mul 100 p) + NEXT_PAGE_PRIORITY)"

definition get_parse_product_request :: "LinkRequest \<Rightarrow> Callback option \<Rightarrow> ScrapyRequest" where
  "get_parse_product_request request cb =
     (let cb' = (case cb of None \<Rightarrow> parse_product_callback | Some c \<Rightarrow> c);
          prio = get_parse_product_request_priority request;
          p = get_probability request;
          scrapy_request = to_scrapy request cb' prio
            \<lparr>page_params = None,
             crawling_logs = Some
               \<lparr>log_name = name request, log_probability = p, page_type = ''product''\<rparr>,
             allow_offsite = None\<rparr>
      in scrapy_request\<lparr>meta := (meta scrapy_request)\<lparr>allow_offsite := Some True\<rparr>\<rparr>)"

subsection \<open>The callbacks\<close>

text \<open>
  \<^verbatim>\<open>start_requests\<close>: one request per start URL. Under \<open>full\<close> it reads
  \<^verbatim>\<open>self.allowed_domains[0]\<close>, which raises \<^verbatim>\<open>IndexError\<close> on an empty list.
\<close>

definition start_requests :: "EcommerceSpider \<Rightarrow> py_error + ScrapyRequest list" where
  "start_requests self =
     (if crawl_strategy self = full \<and> allowed_domains self = [] then Inl IndexError
      else
        (let params = (if crawl_strategy self = full
                       then [(''full_domain'', hd (allowed_domains self))] else [])
         in Inr (map (\<lambda>u.
              \<lparr>request_url = u, callback = parse_navigation_callback, priority = 0,
               meta = \<lparr>page_params = Some params,
                       crawling_logs = Some
                         \<lparr>log_name = None, log_probability = None,
                          page_type = ''productNavigation''\<rparr>,
                       allow_offsite = None\<rparr>\<rparr>) (start_urls self))))"

text \<open>
  \<^verbatim>\<open>parse_navigation\<close>: the requests it yields, in order, and the lines it logs.
  The response's \<^verbatim>\<open>meta\<close> is the first argument after the spider.
\<close>

definition parse_navigation ::
  "EcommerceSpider \<Rightarrow> Meta \<Rightarrow> ProductNavigation \<Rightarrow> ScrapyRequest list \<times> log_entry list" where
  "parse_navigation self response_meta nav =
     (let params = page_params response_meta;
          products = (case items nav of None \<Rightarrow> [] | Some xs \<Rightarrow> xs);
          product_requests = map (\<lambda>r. get_parse_product_request r None) products;
          (next_requests, logs) =
            (case nextPage nav of
               None \<Rightarrow> ([], [])
             | Some n \<Rightarrow>
                 if products = [] then ([], [IgnoringNextPage n (page_url nav)])
                 else ([get_nextpage_request n None None], []));
          subcategory_requests =
            (if crawl_strategy self \<noteq> pagination_only
             then map (\<lambda>r. snd (get_subcategory_request r None params None))
                    (case subCategories nav of None \<Rightarrow> [] | Some xs \<Rightarrow> xs)
             else [])
      in (product_requests @ next_requests @ subcategory_requests, logs))"

text \<open>
  \<^verbatim>\<open>parse_product\<close>: the items it yields, the statistics after the call and the
  lines it logs. It has no \<^verbatim>\<open>raise\<close> and calls nothing that fails on these
  inputs, so the result is a plain value.
\<close>

definition parse_product ::
  "(string \<rightharpoonup> int) \<Rightarrow> string \<Rightarrow> Product \<Rightarrow> Product list \<times> (string \<rightharpoonup> int) \<times> log_entry list" where
  "parse_product stats response_url product =
     (let p = product_get_probability product;
          accepted = (case p of None \<Rightarrow> True | Some v \<Rightarrow> v \<ge> 0.1) in
      if accepted then ([product], stats, [])
      else ([], inc_value stats ''drop_item/product/low_probability'',
            [IgnoringItem response_url product]))"

text \<open>The page-type tag of an emitted request, when it has crawling logs.\<close>

definition request_page_type :: "ScrapyRequest \<Rightarrow> string option" where
  "request_page_type r = map_option page_type (crawling_logs (meta r))"

text \<open>The roles a navigation request can be tagged with.\<close>

definition is_subcategory_request :: "ScrapyRequest \<Rightarrow> bool" where
  "is_subcategory_request r =
     (request_page_type r = Some ''subCategories''
      \<or> request_page_type r = Some ''productNavigation-heuristics'')"

definition is_nextpage_request :: "ScrapyRequest \<Rightarrow> bool" where
  "is_nextpage_request r = (request_page_type r = Some ''nextPage'')"

text \<open>\<^verbatim>\<open>stats.get_value(key, default)\<close> of Scrapy.\<close>

definition get_value :: "(string \<rightharpoonup> int) \<Rightarrow> string \<Rightarrow> int \<Rightarrow> int" where
  "get_value stats key dflt = (case stats key of None \<Rightarrow> dflt | Some v \<Rightarrow> v)"

subsection \<open>The requests of a crawl\<close>

text \<open>
  Scrapy calls the callback of a request with the response to it, and
  \<^verbatim>\<open>response.meta\<close> is the \<^verbatim>\<open>meta\<close> of that request. The requests of a crawl are the
  start requests and, for a request handled by \<^verbatim>\<open>parse_navigation\<close> and any
  navigation result extracted from its response, the requests that callback yields.
\<close>

inductive crawl_request :: "EcommerceSpider \<Rightarrow> ScrapyRequest \<Rightarrow> bool" for self where
  start: "start_requests self = Inr rs \<Longrightarrow> r \<in> set rs \<Longrightarrow> crawl_request self r"
| follow: "crawl_request self r \<Longrightarrow> callback r = parse_navigation_callback
    \<Longrightarrow> r' \<in> set (fst (parse_navigation self (meta r) nav)) \<Longrightarrow> crawl_request self r'"

subsection \<open>Example inputs\<close>

text \<open>
  A navigation page with two products (probabilities 0.8 and 0.05; the decimals
  stand for the doubles nearest to them), a next page, a plain subcategory and a
  subcategory found by heuristics; a spider with one start URL; the \<^verbatim>\<open>meta\<close> of
  that spider's start request.
\<close>

definition example_link :: "string \<Rightarrow> string option \<Rightarrow> real option \<Rightarrow> LinkRequest" where
  "example_link u n p = \<lparr>url = u, name = n, metadata = Attribute (Some \<lparr>probability = p\<rparr>)\<rparr>"

definition example_navigation :: ProductNavigation where
  "example_navigation =
     \<lparr>page_url = ''https://example.com/shoes'',
      items = Some [example_link ''https://example.com/p/1'' (Some ''Boot'') (Some 0.8),
                    example_link ''https://example.com/p/2'' (Some ''Clog'') (Some 0.05)],
      nextPage = Some \<lparr>url = ''https://example.com/shoes?page=2'', name = None,
                          metadata = NoAttribute\<rparr>,
      subCategories = Some [example_link ''https://example.com/sandals'' (Some ''Sandals'') None,
                            example_link ''https://example.com/misc''
                              (Some ''[heuristics] Shoes'') (Some 0.5)]\<rparr>"

definition example_spider :: "EcommerceCrawlStrategy \<Rightarrow> EcommerceSpider" where
  "example_spider strategy =
     \<lparr>crawl_strategy = strategy, start_urls = [''https://example.com/shoes''],
      allowed_domains = [''example.com'']\<rparr>"

definition example_meta :: "EcommerceCrawlStrategy \<Rightarrow> Meta" where
  "example_meta strategy =
     \<lparr>page_params = Some (if strategy = full then [(''full_domain'', ''example.com'')] else []),
      crawling_logs = Some \<lparr>log_name = None, log_probability = None,
                              page_type = ''productNavigation''\<rparr>,
      allow_offsite = None\<rparr>"

definition example_product :: "real option \<Rightarrow> Product" where
  "example_product p =
     \<lparr>product_url = ''https://example.com/p/1'', product_metadata = Some \<lparr>probability = p\<rparr>\<rparr>"

text \<open>The doubles nearest to 0.35, 0.7 and 0.15, as \<^verbatim>\<open>float.as_integer_ratio()\<close> gives them.\<close>

definition double_035 :: real where
  "double_035 = 3152519739159347 / 2 ^ 53"

definition double_07 :: real where
  "double_07 = 3152519739159347 / 2 ^ 52"

definition double_015 :: real where
  "double_015 = 5404319552844595 / 2 ^ 55"

section \<open>Auxiliary facts\<close>

subsection \<open>Rounding to doubles\<close>

lemma bit_length_bounds:
  "0 < n \<Longrightarrow> 2 ^ (bit_length n - 1) \<le> n \<and> n < 2 ^ bit_length n"
proof (induction n rule: bit_length.induct)
  case (1 n)
  show ?case
  proof (cases "n div 2 = 0")
    case True
    with 1 have "n = 1" by (simp add: div_eq_0_iff) 
    then show ?thesis by (simp add: bit_length.simps [of "Suc 0"] bit_length.simps [of 0])
  next
    case False
    with 1 have IH: "2 ^ (bit_length (n div 2) - 1) \<le> n div 2" "n div 2 < 2 ^ bit_length (n div 2)"
      by auto
    have pos: "0 < bit_length (n div 2)"
      using False by (simp add: bit_length.simps [of "n div 2"])
    have bl: "bit_length n = Suc (bit_length (n div 2))"
      using 1(2) by (simp add: bit_length.simps [of n])
    have "2 ^ (bit_length n - 1) = 2 * 2 ^ (bit_length (n div 2) - 1)"
      using pos bl by (cases "bit_length (n div 2)") auto
    also have "\<dots> \<le> 2 * (n div 2)" using IH(1) by simp
    also have "\<dots> \<le> n" by simp
    finally have lo: "2 ^ (bit_length n - 1) \<le> n" .
    have "n < 2 * (n div 2) + 2" by presburger
    also have "\<dots> \<le> 2 * 2 ^ bit_length (n div 2)" using IH(2) by simp
    finally have "n < 2 ^ bit_length n" by (simp add: bl)
    with lo show ?thesis by simp
  qed
qed

lemma float_exponent_bounds:
  assumes "0 < x"
  shows "2 powi float_exponent x \<le> x \<and> x < 2 powi (float_exponent x + 1)"
proof (cases "1 \<le> x")
  case True
  define n where "n = nat \<lfloor>x\<rfloor>"
  have fl: "1 \<le> \<lfloor>x\<rfloor>" using True by linarith
  have n1: "0 < n" using fl by (simp add: n_def)
  have rn: "real n = of_int \<lfloor>x\<rfloor>" using fl by (simp add: n_def)
  have n2: "real n \<le> x" unfolding rn by (rule of_int_floor_le)
  have n3: "x < real n + 1" unfolding rn by linarith
  define k where "k = bit_length n"
  from bit_length_bounds [OF n1] have b: "2 ^ (k - 1) \<le> n" "n < 2 ^ k"
    by (simp_all add: k_def)
  have kpos: "0 < k" using b(2) n1 by (cases k) simp_all
  have e: "float_exponent x = int k - 1"
    using True by (simp add: float_exponent_def n_def k_def)
  have ik: "int k - 1 = int (k - 1)" using kpos by simp
  have "(2::real) powi (int k - 1) = 2 ^ (k - 1)"
    unfolding ik by (rule power_int_of_nat)
  also have "\<dots> = real (2 ^ (k - 1))" by simp
  also have "\<dots> \<le> real n" using b(1) by (rule of_nat_mono)
  finally have lo: "2 powi (int k - 1) \<le> x" using n2 by linarith
  have "n + 1 \<le> 2 ^ k" using b(2) by simp
  then have "real (n + 1) \<le> real (2 ^ k)" by (rule of_nat_mono)
  then have "real n + 1 \<le> 2 ^ k" by simp
  with n3 have "x < 2 ^ k" by linarith
  moreover have "(2::real) powi (int k - 1 + 1) = 2 ^ k" by simp
  ultimately have "x < 2 powi (int k - 1 + 1)" by simp
  with lo e show ?thesis by simp
next
  case False
  with assms have inv: "1 < 1 / x" by simp
  define n where "n = nat \<lceil>1 / x\<rceil>"
  have c2: "2 \<le> \<lceil>1 / x\<rceil>" using inv by linarith
  have n2: "2 \<le> n" unfolding n_def using c2 by linarith
  have rn: "real n = of_int \<lceil>1 / x\<rceil>" using c2 by (simp add: n_def)
  have up: "1 / x \<le> real n" unfolding rn by (rule le_of_int_ceiling)
  have lo: "real n - 1 < 1 / x" unfolding rn by linarith
  define k where "k = bit_length (n - 1)"
  have "0 < n - 1" using n2 by simp
  from bit_length_bounds [OF this] have b: "2 ^ (k - 1) \<le> n - 1" "n - 1 < 2 ^ k"
    by (simp_all add: k_def)
  have kpos: "0 < k" using b(2) n2 by (cases k) simp_all
  have e: "float_exponent x = - int k"
    using False by (simp add: float_exponent_def n_def k_def)
  have "n \<le> 2 ^ k" using b(2) by simp
  then have "real n \<le> real (2 ^ k)" by (rule of_nat_mono)
  then have "real n \<le> 2 ^ k" by simp
  with up have "1 / x \<le> 2 ^ k" by linarith
  then have "1 \<le> 2 ^ k * x" using assms by (simp add: field_simps)
  then have "1 / 2 ^ k \<le> x" by (simp add: field_simps)
  moreover have "(2::real) powi (- int k) = 1 / 2 ^ k"
    by (simp add: power_int_minus_divide)
  ultimately have lower: "2 powi (- int k) \<le> x" by simp
  have "real (2 ^ (k - 1)) \<le> real (n - 1)" using b(1) by (rule of_nat_mono)
  then have "2 ^ (k - 1) \<le> real n - 1" using n2 by (simp add: of_nat_diff)
  with lo have "2 ^ (k - 1) < 1 / x" by linarith
  then have "2 ^ (k - 1) * x < 1" using assms by (simp add: field_simps)
  then have upper: "x < 1 / 2 ^ (k - 1)" by (simp add: field_simps)
  have ik: "- int k + 1 = - int (k - 1)" using kpos by simp
  have "(2::real) powi (- int k + 1) = 1 / 2 ^ (k - 1)"
    unfolding ik by (simp add: power_int_minus_divide)
  with upper have "x < 2 powi (- int k + 1)" by simp
  with lower e show ?thesis by simp
qed

lemma float_exponent_unique:
  assumes "2 powi e \<le> x" and "x < 2 powi (e + 1)"
  shows "float_exponent x = e"
proof -
  have pos: "0 < x" using assms(1) zero_less_power_int [of "2::real" e] by linarith
  from float_exponent_bounds [OF pos]
  have b: "2 powi float_exponent x \<le> x" "x < 2 powi (float_exponent x + 1)" by auto
  have "(2::real) powi e < 2 powi (float_exponent x + 1)" using assms(1) b(2) by linarith
  then have "e < float_exponent x + 1"
    using power_int_increasing [of "float_exponent x + 1" e "2::real"] by (cases "e < float_exponent x + 1") simp_all
  moreover have "(2::real) powi float_exponent x < 2 powi (e + 1)" using assms(2) b(1) by linarith
  then have "float_exponent x < e + 1"
    using power_int_increasing [of "e + 1" "float_exponent x" "2::real"] by (cases "float_exponent x < e + 1") simp_all
  ultimately show ?thesis by simp
qed

lemma round_half_even_of_int [simp]: "round_half_even (of_int n) = n"
  by (simp add: round_half_even_def)

lemma round_half_even_numeral [simp]: "round_half_even (numeral n) = numeral n"
  by (simp add: round_half_even_def)

lemma round_half_even_bounds: "\<lfloor>x\<rfloor> \<le> round_half_even x \<and> round_half_even x \<le> \<lfloor>x\<rfloor> + 1"
  by (simp add: round_half_even_def Let_def)

lemma round_half_even_mono:
  assumes "a \<le> b"
  shows "round_half_even a \<le> round_half_even b"
proof (cases "\<lfloor>a\<rfloor> = \<lfloor>b\<rfloor>")
  case True
  with assms show ?thesis
    by (auto simp: round_half_even_def Let_def)
next
  case False
  with assms have "\<lfloor>a\<rfloor> < \<lfloor>b\<rfloor>" using floor_mono [of a b] by linarith
  with round_half_even_bounds [of a] round_half_even_bounds [of b] show ?thesis by linarith
qed

lemma double_round_pos:
  "0 < x \<Longrightarrow> double_round x = of_int (round_half_even (x / float_ulp x)) * float_ulp x"
  by (simp add: double_round_def)

lemma float_ulp_pos: "0 < float_ulp x"
  by (simp add: float_ulp_def)

lemma double_round_eval:
  assumes "2 powi e \<le> x" and "x < 2 powi (e + 1)" and "- 1022 \<le> e"
  shows "double_round x = of_int (round_half_even (x / 2 powi (e - 52))) * 2 powi (e - 52)"
proof -
  have pos: "0 < x" using assms(1) zero_less_power_int [of "2::real" e] by linarith
  have "float_exponent x = e" using assms(1,2) by (rule float_exponent_unique)
  then have "float_ulp x = 2 powi (e - 52)" using pos assms(3) by (simp add: float_ulp_def)
  with double_round_pos [OF pos] show ?thesis by simp
qed

lemma double_round_pos_mono:
  assumes "0 < x" and "x \<le> y"
  shows "double_round x \<le> double_round y"
proof -
  have ypos: "0 < y" using assms by linarith
  define ex where "ex = max (float_exponent x) (- 1022)"
  define ey where "ey = max (float_exponent y) (- 1022)"
  have ux: "float_ulp x = 2 powi (ex - 52)" using assms(1) by (simp add: float_ulp_def ex_def)
  have uy: "float_ulp y = 2 powi (ey - 52)" using ypos by (simp add: float_ulp_def ey_def)
  from float_exponent_bounds [OF assms(1)]
  have bx: "2 powi float_exponent x \<le> x" "x < 2 powi (float_exponent x + 1)" by auto
  from float_exponent_bounds [OF ypos]
  have "by": "2 powi float_exponent y \<le> y" "y < 2 powi (float_exponent y + 1)" by auto
  have "(2::real) powi float_exponent x < 2 powi (float_exponent y + 1)"
    using bx(1) "by"(2) assms(2) by linarith
  then have "float_exponent x < float_exponent y + 1"
    using power_int_increasing [of "float_exponent y + 1" "float_exponent x" "2::real"]
    by (cases "float_exponent x < float_exponent y + 1") simp_all
  then have le: "ex \<le> ey" by (simp add: ex_def ey_def)
  show ?thesis
  proof (cases "ex = ey")
    case True
    then have u: "float_ulp x = float_ulp y" by (simp add: ux uy)
    have "x / float_ulp y \<le> y / float_ulp y"
      using assms(2) float_ulp_pos [of y] by (simp add: divide_right_mono)
    then have "round_half_even (x / float_ulp y) \<le> round_half_even (y / float_ulp y)"
      by (rule round_half_even_mono)
    then have "of_int (round_half_even (x / float_ulp y)) * float_ulp y
        \<le> of_int (round_half_even (y / float_ulp y)) * float_ulp y"
      using float_ulp_pos [of y] by (simp add: mult_right_mono)
    then show ?thesis
      by (simp add: double_round_pos [OF assms(1)] double_round_pos [OF ypos] u)
  next
    case False
    with le have lt: "ex < ey" by simp
    have eyn: "ey = float_exponent y" using lt unfolding ey_def ex_def by linarith
    have "x < 2 powi (ex + 1)"
    proof -
      have "float_exponent x + 1 \<le> ex + 1" by (simp add: ex_def)
      then have "(2::real) powi (float_exponent x + 1) \<le> 2 powi (ex + 1)"
        by (intro power_int_increasing) simp_all
      with bx(2) show ?thesis by linarith
    qed
    moreover have "(2::real) powi (ex + 1) = 2 ^ 53 * 2 powi (ex - 52)"
    proof -
      have "ex + 1 = 53 + (ex - 52)" by simp
      then have "(2::real) powi (ex + 1) = 2 powi (53 + (ex - 52))" by (rule arg_cong)
      also have "\<dots> = 2 powi 53 * 2 powi (ex - 52)" by (rule power_int_add) simp
      finally show ?thesis by simp
    qed
    ultimately have "x / float_ulp x \<le> of_int (2 ^ 53)"
      using float_ulp_pos [of x] by (simp add: ux field_simps)
    then have "round_half_even (x / float_ulp x) \<le> round_half_even (of_int (2 ^ 53))"
      by (rule round_half_even_mono)
    then have "round_half_even (x / float_ulp x) \<le> 2 ^ 53" by simp
    then have "(of_int (round_half_even (x / float_ulp x)) :: real) \<le> of_int (2 ^ 53)"
      by (simp only: of_int_le_iff)
    then have "of_int (round_half_even (x / float_ulp x)) * float_ulp x \<le> 2 ^ 53 * float_ulp x"
      using float_ulp_pos [of x] by (simp add: mult_right_mono)
    then have rx: "double_round x \<le> 2 powi (ex + 1)"
      using \<open>(2::real) powi (ex + 1) = 2 ^ 53 * 2 powi (ex - 52)\<close>
      by (simp add: double_round_pos [OF assms(1)] ux)
    have "(2::real) powi ey = 2 ^ 52 * 2 powi (ey - 52)"
    proof -
      have "ey = 52 + (ey - 52)" by simp
      then have "(2::real) powi ey = 2 powi (52 + (ey - 52))" by (rule arg_cong)
      also have "\<dots> = 2 powi 52 * 2 powi (ey - 52)" by (rule power_int_add) simp
      finally show ?thesis by simp
    qed
    with "by"(1) eyn have "of_int (2 ^ 52) \<le> y / float_ulp y"
      using float_ulp_pos [of y] by (simp add: uy field_simps)
    then have "round_half_even (of_int (2 ^ 52)) \<le> round_half_even (y / float_ulp y)"
      by (rule round_half_even_mono)
    then have "2 ^ 52 \<le> round_half_even (y / float_ulp y)" by simp
    then have "(of_int (2 ^ 52) :: real) \<le> of_int (round_half_even (y / float_ulp y))"
      by (simp only: of_int_le_iff)
    then have "2 ^ 52 * float_ulp y \<le> of_int (round_half_even (y / float_ulp y)) * float_ulp y"
      using float_ulp_pos [of y] by (simp add: mult_right_mono)
    then have ry: "2 powi ey \<le> double_round y"
      using \<open>(2::real) powi ey = 2 ^ 52 * 2 powi (ey - 52)\<close>
      by (simp add: double_round_pos [OF ypos] uy)
    have "ex + 1 \<le> ey" using lt by simp
    then have "(2::real) powi (ex + 1) \<le> 2 powi ey"
      by (intro power_int_increasing) simp_all
    with rx ry show ?thesis by linarith
  qed
qed

lemma double_round_zero [simp]: "double_round 0 = 0"
  by (simp add: double_round_def)

lemma double_round_of_int:
  assumes "0 \<le> n" and "n < 2 ^ 53"
  shows "double_round (of_int n) = of_int n"
proof (cases "n = 0")
  case True
  then show ?thesis by simp
next
  case False
  with assms have n1: "1 \<le> n" by simp
  define x :: real where "x = of_int n"
  have x1: "1 \<le> x" using n1 by (simp add: x_def)
  have xlt: "x < 2 powi 53" using assms(2) unfolding x_def
    by (metis of_int_less_iff of_int_numeral of_int_power power_int_numeral)
  define e where "e = float_exponent x"
  have pos: "0 < x" using x1 by linarith
  from float_exponent_bounds [OF pos]
  have b: "2 powi e \<le> x" "x < 2 powi (e + 1)" by (auto simp: e_def)
  have "(2::real) powi 0 < 2 powi (e + 1)" using x1 b(2) by simp
  then have e0: "0 \<le> e"
    using power_int_increasing [of "e + 1" 0 "2::real"] by (cases "0 < e + 1") simp_all
  have "(2::real) powi e < 2 powi 53" using b(1) xlt by linarith
  then have e52: "e \<le> 52"
    using power_int_increasing [of 53 e "2::real"] by (cases "e < 53") simp_all
  define m where "m = nat (52 - e)"
  have em: "e - 52 = - int m" using e52 by (simp add: m_def)
  have ulp: "float_ulp x = 1 / 2 ^ m"
    using pos e0 by (simp add: float_ulp_def e_def [symmetric] em power_int_minus_divide)
  have "x / float_ulp x = of_int (n * 2 ^ m)" unfolding ulp by (simp add: x_def)
  then have "round_half_even (x / float_ulp x) = n * 2 ^ m"
    by (simp only: round_half_even_of_int)
  then have "double_round x = of_int (n * 2 ^ m) * (1 / 2 ^ m)"
    by (simp add: double_round_pos [OF pos] ulp)
  then show ?thesis by (simp add: x_def)
qed

lemma double_round_mono:
  assumes "0 \<le> x" and "x \<le> y"
  shows "double_round x \<le> double_round y"
proof (cases "x = 0")
  case False
  with assms show ?thesis by (simp add: double_round_pos_mono)
next
  case True
  show ?thesis
  proof (cases "y = 0")
    case True
    with \<open>x = 0\<close> show ?thesis by simp
  next
    case False
    with assms True have ypos: "0 < y" by simp
    have "0 \<le> round_half_even (y / float_ulp y)"
      using round_half_even_mono [of 0 "y / float_ulp y"] ypos float_ulp_pos [of y]
      by (simp add: round_half_even_def)
    then show ?thesis
      using float_ulp_pos [of y] by (simp add: True double_round_pos [OF ypos])
  qed
qed

lemma double_round_floor:
  assumes "0 \<le> x" and "x < 2 ^ 52"
  shows "\<lfloor>x\<rfloor> \<le> \<lfloor>double_round x\<rfloor> \<and> \<lfloor>double_round x\<rfloor> \<le> \<lfloor>x\<rfloor> + 1"
proof -
  have f0: "0 \<le> \<lfloor>x\<rfloor>" using assms(1) by simp
  have "\<lfloor>x\<rfloor> < 2 ^ 52" using assms(2) by (simp add: floor_less_iff)
  then have f1: "\<lfloor>x\<rfloor> < 2 ^ 53" "\<lfloor>x\<rfloor> + 1 < 2 ^ 53" by simp_all
  have "double_round (of_int \<lfloor>x\<rfloor>) \<le> double_round x"
    by (rule double_round_mono) (use f0 in simp_all)
  then have lo: "of_int \<lfloor>x\<rfloor> \<le> double_round x"
    by (simp add: double_round_of_int [OF f0 f1(1)])
  have "x \<le> of_int (\<lfloor>x\<rfloor> + 1)"
    using real_of_int_floor_add_one_ge [of x] by simp
  with assms(1) have "double_round x \<le> double_round (of_int (\<lfloor>x\<rfloor> + 1))"
    by (rule double_round_mono)
  moreover have "double_round (of_int (\<lfloor>x\<rfloor> + 1)) = of_int (\<lfloor>x\<rfloor> + 1)"
    by (rule double_round_of_int) (use f0 f1(2) in simp_all)
  ultimately have hi: "double_round x \<le> of_int (\<lfloor>x\<rfloor> + 1)" by simp
  from lo have "\<lfloor>x\<rfloor> \<le> \<lfloor>double_round x\<rfloor>" by (simp add: le_floor_iff)
  moreover from hi have "\<lfloor>double_round x\<rfloor> \<le> \<lfloor>x\<rfloor> + 1"
    by (metis floor_mono floor_of_int)
  ultimately show ?thesis by simp
qed

lemma powi_shift: "(2::real) powi (a + b) = 2 powi a * 2 powi b"
  by (rule power_int_add) simp

lemma float_ulp_eq:
  assumes "0 < x" and "2 powi e \<le> x" and "x < 2 powi (e + 1)"
  shows "float_ulp x = 2 powi (max e (- 1022) - 52)"
  using float_exponent_unique [OF assms(2,3)] assms(1) by (simp add: float_ulp_def)

lemma float_ulp_subnormal:
  assumes "0 < x" and "x < 2 powi (- 1022)"
  shows "float_ulp x = 2 powi (- 1074)"
proof -
  from float_exponent_bounds [OF assms(1)] have "2 powi float_exponent x \<le> x" by simp
  with assms(2) have "(2::real) powi float_exponent x < 2 powi (- 1022)" by linarith
  then have "float_exponent x < - 1022"
    using power_int_increasing [of "- 1022" "float_exponent x" "2::real"]
    by (cases "float_exponent x < - 1022") simp_all
  then have "max (float_exponent x) (- 1022) = - 1022" by simp
  then show ?thesis using assms(1) by (simp add: float_ulp_def)
qed

lemma double_round_multiple:
  assumes "0 < k" and "float_ulp (of_int k * u) = u" and "0 < u"
  shows "double_round (of_int k * u) = of_int k * u"
proof -
  have pos: "0 < of_int k * u" using assms(1,3) by simp
  have "of_int k * u / u = of_int k" using assms(3) by simp
  then show ?thesis
    by (simp add: double_round_pos [OF pos] assms(2))
qed

lemma double_round_idem_pos:
  assumes "0 < x"
  shows "double_round (double_round x) = double_round x"
proof -
  define E where "E = float_exponent x"
  define e where "e = max E (- 1022)"
  define u :: real where "u = 2 powi (e - 52)"
  define k where "k = round_half_even (x / u)"
  have u: "float_ulp x = u" using assms by (simp add: float_ulp_def u_def e_def E_def)
  have upos: "0 < u" by (simp add: u_def)
  have r: "double_round x = of_int k * u"
    by (simp add: double_round_pos [OF assms] u k_def)
  from float_exponent_bounds [OF assms]
  have bx: "2 powi E \<le> x" "x < 2 powi (E + 1)" by (auto simp: E_def)
  have p53: "(2::real) powi (e + 1) = 2 ^ 53 * u"
  proof -
    have "e + 1 = 53 + (e - 52)" by simp
    then have "(2::real) powi (e + 1) = 2 powi (53 + (e - 52))" by (rule arg_cong)
    also have "\<dots> = 2 powi 53 * 2 powi (e - 52)" by (rule powi_shift)
    finally show ?thesis by (simp add: u_def)
  qed
  have p52: "(2::real) powi e = 2 ^ 52 * u"
  proof -
    have "e = 52 + (e - 52)" by simp
    then have "(2::real) powi e = 2 powi (52 + (e - 52))" by (rule arg_cong)
    also have "\<dots> = 2 powi 52 * 2 powi (e - 52)" by (rule powi_shift)
    finally show ?thesis by (simp add: u_def)
  qed
  have "E + 1 \<le> e + 1" by (simp add: e_def)
  then have "(2::real) powi (E + 1) \<le> 2 powi (e + 1)"
    by (intro power_int_increasing) simp_all
  with bx(2) have "x < 2 ^ 53 * u" using p53 by linarith
  then have "x / u \<le> of_int (2 ^ 53)" using upos by (simp add: field_simps)
  then have "k \<le> round_half_even (of_int (2 ^ 53))"
    unfolding k_def by (rule round_half_even_mono)
  then have k53: "k \<le> 2 ^ 53" by simp
  have "0 \<le> x / u" using assms upos by simp
  then have "round_half_even 0 \<le> k" unfolding k_def by (rule round_half_even_mono)
  then have k0: "0 \<le> k" by (simp add: round_half_even_def)
  show ?thesis
  proof (cases "k = 0")
    case True
    then show ?thesis by (simp add: r)
  next
    case False
    with k0 have kpos: "0 < k" by simp
    have rpos: "0 < of_int k * u" using kpos upos by simp
    show ?thesis
    proof (cases "E < - 1022")
      case True
      then have e: "e = - 1022" by (simp add: e_def)
      have u1074: "u = 2 powi (- 1074)" by (simp add: u_def e)
      have "(2::real) powi (E + 1) \<le> 2 powi (- 1022)"
        using True by (intro power_int_increasing) simp_all
      with bx(2) have "x < 2 powi e" by (simp add: e)
      then have "x < 2 ^ 52 * u" using p52 by simp
      then have "x / u \<le> of_int (2 ^ 52)" using upos by (simp add: field_simps)
      then have "k \<le> round_half_even (of_int (2 ^ 52))"
        unfolding k_def by (rule round_half_even_mono)
      then have k52: "k \<le> 2 ^ 52" by simp
      have "float_ulp (of_int k * u) = u"
      proof (cases "k = 2 ^ 52")
        case True
        then have "of_int k * u = 2 powi e" using p52 by simp
        then have "2 powi (- 1022) \<le> of_int k * u" "of_int k * u < 2 powi (- 1022 + 1)"
          by (simp_all add: e)
        from float_ulp_eq [OF rpos this] show ?thesis by (simp add: u1074)
      next
        case False
        with k52 have "k < 2 ^ 52" by simp
        then have "(of_int k :: real) < 2 ^ 52" by (metis of_int_less_iff of_int_numeral of_int_power)
        then have "of_int k * u < 2 ^ 52 * u" using upos by simp
        moreover have "(2::real) powi (- 1022) = 2 ^ 52 * u" using p52 unfolding e .
        ultimately have "of_int k * u < 2 powi (- 1022)" by linarith
        from float_ulp_subnormal [OF rpos this] show ?thesis by (simp add: u1074)
      qed
      from double_round_multiple [OF kpos this upos] show ?thesis by (simp add: r)
    next
      case False
      then have e: "e = E" by (simp add: e_def)
      have e1022: "- 1022 \<le> e" by (simp add: e_def)
      from bx(1) have "2 ^ 52 * u \<le> x" using p52 by (simp add: e)
      then have "of_int (2 ^ 52) \<le> x / u" using upos by (simp add: field_simps)
      then have "round_half_even (of_int (2 ^ 52)) \<le> k"
        unfolding k_def by (rule round_half_even_mono)
      then have k52: "2 ^ 52 \<le> k" by simp
      show ?thesis
      proof (cases "k = 2 ^ 53")
        case True
        then have v: "of_int k * u = 2 powi (e + 1)" using p53 by simp
        have lo: "2 powi (e + 1) \<le> of_int k * u" by (simp add: v)
        have "(2::real) powi (e + 1) < 2 powi (e + 1 + 1)"
          by (intro power_int_strict_increasing) simp_all
        then have hi: "of_int k * u < 2 powi (e + 1 + 1)" by (simp add: v)
        from float_ulp_eq [OF rpos lo hi] e1022
        have ulp': "float_ulp (of_int k * u) = 2 powi (e + 1 - 52)" by simp
        have "e + 1 - 52 = 1 + (e - 52)" by simp
        then have "(2::real) powi (e + 1 - 52) = 2 powi (1 + (e - 52))" by (rule arg_cong)
        also have "\<dots> = 2 powi 1 * 2 powi (e - 52)" by (rule powi_shift)
        finally have u2: "(2::real) powi (e + 1 - 52) = 2 * u" by (simp add: u_def)
        have kv: "of_int k * u = of_int (2 ^ 52) * (2 * u)" using True by simp
        have "double_round (of_int (2 ^ 52) * (2 * u)) = of_int (2 ^ 52) * (2 * u)"
        proof (rule double_round_multiple)
          show "(0::int) < 2 ^ 52" by simp
          show "0 < 2 * u" using upos by simp
          show "float_ulp (of_int (2 ^ 52) * (2 * u)) = 2 * u"
            using ulp' u2 unfolding kv by simp
        qed
        then have "double_round (of_int k * u) = of_int k * u" unfolding kv .
        then show ?thesis by (simp add: r)
      next
        case False
        with k53 have "k < 2 ^ 53" by simp
        then have "(of_int k :: real) < 2 ^ 53" by (metis of_int_less_iff of_int_numeral of_int_power)
        then have "of_int k * u < 2 ^ 53 * u" using upos by simp
        then have hi: "of_int k * u < 2 powi (e + 1)" using p53 by simp
        have "(2 ^ 52 :: real) \<le> of_int k" using k52 by (metis of_int_le_iff of_int_numeral of_int_power)
        then have "2 ^ 52 * u \<le> of_int k * u" using upos by simp
        then have lo: "2 powi e \<le> of_int k * u" using p52 by simp
        from float_ulp_eq [OF rpos lo hi] e1022
        have "float_ulp (of_int k * u) = u" by (simp add: u_def)
        from double_round_multiple [OF kpos this upos] show ?thesis by (simp add: r)
      qed
    qed
  qed
qed


lemma double_round_minus: "double_round (- x) = - double_round x"
  by (simp add: double_round_def float_ulp_def)

lemma double_round_idem: "double_round (double_round x) = double_round x"
proof (cases "0 < x")
  case True
  then show ?thesis by (rule double_round_idem_pos)
next
  case False
  show ?thesis
  proof (cases "x = 0")
    case True
    then show ?thesis by (simp add: double_round_def)
  next
    case False
    with \<open>\<not> 0 < x\<close> have "0 < - x" by simp
    then have "double_round (double_round (- x)) = double_round (- x)"
      by (rule double_round_idem_pos)
    then show ?thesis by (simp add: double_round_minus)
  qed
qed

lemma is_double_py_float: "is_double (py_float x)"
  by (simp add: is_double_def py_float_def double_round_idem)

lemma py_float_double: "is_double x \<Longrightarrow> py_float x = x"
  by (simp add: is_double_def py_float_def)

lemma is_double_float_mul: "is_double (float_mul a b)"
  by (simp add: is_double_def float_mul_def double_round_idem)

lemma double_round_nonneg: "0 \<le> x \<Longrightarrow> 0 \<le> double_round x"
  using double_round_mono [of 0 x] by simp

lemma is_double_100: "is_double 100"
  using double_round_of_int [of 100] by (simp add: is_double_def)

lemma float_mul_100: "is_double p \<Longrightarrow> float_mul 100 p = double_round (100 * p)"
  using is_double_100 by (simp add: float_mul_def py_float_def is_double_def)

lemma float_mul_100_nonneg:
  assumes "0 \<le> p"
  shows "0 \<le> float_mul 100 p"
proof -
  have "0 \<le> 100 * double_round p" using double_round_nonneg [OF assms] by simp
  then have "0 \<le> double_round (100 * double_round p)" by (rule double_round_nonneg)
  then show ?thesis using is_double_100 by (simp add: float_mul_def py_float_def is_double_def)
qed

lemma float_mul_100_mono:
  assumes "0 \<le> p" and "p \<le> q"
  shows "float_mul 100 p \<le> float_mul 100 q"
proof -
  have "double_round p \<le> double_round q" using assms by (rule double_round_mono)
  then have le: "100 * double_round p \<le> 100 * double_round q" by simp
  have "0 \<le> 100 * double_round p" using double_round_nonneg [OF assms(1)] by simp
  then have "double_round (100 * double_round p) \<le> double_round (100 * double_round q)"
    using le by (rule double_round_mono)
  then show ?thesis using is_double_100 by (simp add: float_mul_def py_float_def is_double_def)
qed

lemma float_mul_100_floor:
  assumes "is_double p" and "0 \<le> p" and "p \<le> 1"
  shows "\<lfloor>100 * p\<rfloor> \<le> \<lfloor>float_mul 100 p\<rfloor> \<and> \<lfloor>float_mul 100 p\<rfloor> \<le> \<lfloor>100 * p\<rfloor> + 1"
proof -
  have "0 \<le> 100 * p" using assms(2) by simp
  moreover have "100 * p < 2 ^ 52" using assms(3) by simp
  ultimately show ?thesis
    using double_round_floor [of "100 * p"] by (simp add: float_mul_100 [OF assms(1)])
qed

lemma navigation_priority_value:
  "get_parse_navigation_request_priority request =
     (case get_probability request of None \<Rightarrow> 0 | Some p \<Rightarrow> py_int (float_mul 100 p))"
  by (simp add: get_parse_navigation_request_priority_def get_probability_def
      split: metadata_attr.splits option.splits)

lemma product_priority_value:
  "priority (get_parse_product_request r c) =
     py_int (float_mul 100 (case get_probability r of None \<Rightarrow> 0 | Some q \<Rightarrow> q)) + 100"
  by (simp add: get_parse_product_request_def get_parse_product_request_priority_def
      to_scrapy_def Let_def or_float_def NEXT_PAGE_PRIORITY_def split: option.splits)

lemma subcategory_priority_value:
  "priority (snd (get_subcategory_request request cb params prio)) =
     or_int prio (get_parse_navigation_request_priority request)"
  by (simp add: get_subcategory_request_def get_parse_navigation_request_def to_scrapy_def
      Let_def get_parse_navigation_request_priority_def)

text \<open>The floats used below, evaluated.\<close>

lemma float_mul_100_zero [simp]: "float_mul 100 0 = 0"
  by (simp add: float_mul_def py_float_def)

lemma example_doubles:
  "is_double (1 / 2)" "is_double (1 / 4)"
  "is_double double_035" "is_double double_07" "is_double double_015"
  by code_simp+

lemma example_products:
  "float_mul 100 (1 / 2) = 50" "float_mul 100 (1 / 4) = 25"
  "float_mul 100 double_035 = 35" "float_mul 100 double_07 = 70"
  "float_mul 100 double_015 = 15"
  "float_mul 100 (4 / 5) = 80" "float_mul 100 (1 / 20) = 5"
  by code_simp+

lemma example_literals:
  "py_float 0.35 = double_035" "py_float 0.7 = double_07" "py_float 0.15 = double_015"
  by code_simp+

lemma example_floors:
  "\<lfloor>100 * double_035\<rfloor> = 34" "\<lfloor>100 * double_07\<rfloor> = 69" "\<lfloor>100 * double_015\<rfloor> = 14"
  "0 \<le> double_035" "double_035 \<le> 1" "0 \<le> double_07" "double_07 \<le> 1"
  "0 \<le> double_015" "double_015 \<le> 1"
  by (simp_all add: double_035_def double_07_def double_015_def)

subsection \<open>Requests\<close>

lemmas builders =
  get_parse_navigation_request_def get_subcategory_request_def get_nextpage_request_def
  get_parse_product_request_def to_scrapy_def request_page_type_def Let_def

lemma page_type_product [simp]:
  "request_page_type (get_parse_product_request r cb) = Some ''product''"
  by (simp add: get_parse_product_request_def to_scrapy_def request_page_type_def Let_def)

lemma page_type_navigation [simp]:
  "request_page_type (get_parse_navigation_request r cb params prio ptype) = Some ptype"
  by (simp add: get_parse_navigation_request_def to_scrapy_def request_page_type_def)

lemma page_type_nextpage [simp]:
  "request_page_type (get_nextpage_request r cb params) = Some ''nextPage''"
  by (simp add: get_nextpage_request_def)

lemma page_type_subcategory:
  "request_page_type (snd (get_subcategory_request r cb params prio)) =
     Some (if str_contains (or_str (name r)) ''[heuristics]''
           then ''productNavigation-heuristics'' else ''subCategories'')"
  by (simp add: get_subcategory_request_def Let_def)

lemma set_parse_navigation:
  "set (fst (parse_navigation self m nav)) \<subseteq>
     (\<lambda>r. get_parse_product_request r None) ` set (case items nav of None \<Rightarrow> [] | Some xs \<Rightarrow> xs)
     \<union> (\<lambda>r. get_nextpage_request r None None) ` set_option (nextPage nav)
     \<union> (\<lambda>r. snd (get_subcategory_request r None (page_params m) None))
          ` set (case subCategories nav of None \<Rightarrow> [] | Some xs \<Rightarrow> xs)"
  by (auto simp: parse_navigation_def Let_def split: option.splits if_splits)

lemma parse_navigation_requests:
  "fst (parse_navigation self m nav) =
     map (\<lambda>r. get_parse_product_request r None) (case items nav of None \<Rightarrow> [] | Some xs \<Rightarrow> xs)
     @ (case nextPage nav of
          None \<Rightarrow> []
        | Some n \<Rightarrow> if (case items nav of None \<Rightarrow> [] | Some xs \<Rightarrow> xs) = [] then []
                    else [get_nextpage_request n None None])
     @ (if crawl_strategy self \<noteq> pagination_only
        then map (\<lambda>r. snd (get_subcategory_request r None (page_params m) None))
               (case subCategories nav of None \<Rightarrow> [] | Some xs \<Rightarrow> xs)
        else [])"
  by (simp add: parse_navigation_def Let_def split: option.splits)

lemma is_subcategory_simps [simp]:
  "\<not> is_subcategory_request (get_parse_product_request r cb)"
  "\<not> is_subcategory_request (get_nextpage_request r cb params)"
  "is_subcategory_request (snd (get_subcategory_request r cb params prio))"
  by (simp_all add: is_subcategory_request_def page_type_subcategory)

lemma is_nextpage_simps [simp]:
  "\<not> is_nextpage_request (get_parse_product_request r cb)"
  "is_nextpage_request (get_nextpage_request r cb params)"
  "\<not> is_nextpage_request (snd (get_subcategory_request r cb params prio))"
  by (simp_all add: is_nextpage_request_def page_type_subcategory)

lemma startswith_take: "startswith s p = (take (length p) s = p)"
  by (induction s p rule: startswith.induct) auto

lemma startswith_iff: "startswith s p = (\<exists>t. s = p @ t)"
proof
  assume "startswith s p"
  then have "s = p @ drop (length p) s"
    by (metis startswith_take append_take_drop_id)
  then show "\<exists>t. s = p @ t" ..
next
  assume "\<exists>t. s = p @ t"
  then show "startswith s p" by (auto simp: startswith_take)
qed

lemma str_contains_iff: "str_contains s sub = (\<exists>pre post. s = pre @ sub @ post)"
proof (induction s)
  case Nil
  then show ?case by auto
next
  case (Cons c cs)
  show ?case
  proof
    assume "str_contains (c # cs) sub"
    then consider "startswith (c # cs) sub" | "str_contains cs sub" by auto
    then show "\<exists>pre post. c # cs = pre @ sub @ post"
    proof cases
      case 1
      then obtain t where "c # cs = sub @ t" by (auto simp: startswith_iff)
      then have "c # cs = [] @ sub @ t" by simp
      then show ?thesis by blast
    next
      case 2
      with Cons.IH obtain pre post where "cs = pre @ sub @ post" by auto
      then have "c # cs = (c # pre) @ sub @ post" by simp
      then show ?thesis by blast
    qed
  next
    assume "\<exists>pre post. c # cs = pre @ sub @ post"
    then obtain pre post where eq: "c # cs = pre @ sub @ post" by auto
    show "str_contains (c # cs) sub"
    proof (cases pre)
      case Nil
      with eq have "startswith (c # cs) sub" by (auto simp: startswith_iff)
      then show ?thesis by simp
    next
      case (Cons d pre')
      with eq have "cs = pre' @ sub @ post" by simp
      with Cons.IH have "str_contains cs sub" by auto
      then show ?thesis by simp
    qed
  qed
qed

lemma str_replace_absent:
  "old \<noteq> [] \<Longrightarrow> \<not> str_contains s old \<Longrightarrow> str_replace s old new = s"
  by (induction s) auto

lemma str_replace_first:
  assumes "old \<noteq> []" and "\<not> str_contains (pre @ butlast old) old"
  shows "str_replace (pre @ old @ post) old new = pre @ new @ str_replace post old new"
  using assms(2)
proof (induction pre)
  case Nil
  from assms(1) obtain c cs where old: "old = c # cs" by (cases old) auto
  have "startswith (old @ post) old" by (simp add: startswith_iff)
  then show ?case by (simp add: old)
next
  case (Cons d pre)
  from Cons.prems have no_start: "\<not> startswith (d # pre @ butlast old) old"
    and rest: "\<not> str_contains (pre @ butlast old) old" by auto
  have "take (length old) (d # pre @ old @ post) = take (length old) (d # pre @ butlast old)"
  proof -
    have "d # pre @ old @ post = (d # pre @ butlast old) @ ([last old] @ post)"
      using assms(1) by simp
    moreover have "length old \<le> length (d # pre @ butlast old)" by simp
    ultimately show ?thesis by (metis take_append diff_is_0_eq take_0 append_Nil2)
  qed
  with no_start have "\<not> startswith (d # pre @ old @ post) old"
    by (simp add: startswith_take)
  with assms(1) Cons.IH [OF rest] show ?case by simp
qed

lemma str_replace_once:
  assumes "old \<noteq> []" and "\<not> str_contains (pre @ butlast old) old"
    and "\<not> str_contains post old"
  shows "str_replace (pre @ old @ post) old [] = pre @ post"
  using str_replace_first [OF assms(1,2)] str_replace_absent [OF assms(1,3)] by simp

lemma str_strip_ends:
  assumes "str_strip s \<noteq> []"
  shows "\<not> isspace (hd (str_strip s)) \<and> \<not> isspace (last (str_strip s))"
proof -
  define t where "t = dropWhile isspace s"
  define u where "u = dropWhile isspace (rev t)"
  have strip: "str_strip s = rev u" by (simp add: str_strip_def t_def u_def)
  with assms have u: "u \<noteq> []" by simp
  then have "\<not> isspace (hd u)" unfolding u_def by (rule hd_dropWhile)
  then have l: "\<not> isspace (last (str_strip s))" using u by (simp add: strip last_rev)
  from u have t: "t \<noteq> []" by (auto simp: u_def)
  then have ht: "\<not> isspace (hd t)" unfolding t_def by (rule hd_dropWhile)
  have "rev t = takeWhile isspace (rev t) @ u" by (simp add: u_def)
  then have "last (rev t) = last u" using u by (metis last_appendR)
  then have "hd t = last u" using t by (simp add: last_rev)
  with ht have "\<not> isspace (hd (str_strip s))" using u by (simp add: strip hd_rev)
  with l show ?thesis by simp
qed

lemma str_strip_segment:
  "\<exists>l r. s = l @ str_strip s @ r \<and> list_all isspace l \<and> list_all isspace r"
proof -
  define t where "t = dropWhile isspace s"
  have s: "s = takeWhile isspace s @ t" by (simp add: t_def)
  have "rev t = takeWhile isspace (rev t) @ dropWhile isspace (rev t)" by simp
  then have "t = rev (dropWhile isspace (rev t)) @ rev (takeWhile isspace (rev t))"
    by (metis rev_append rev_rev_ident)
  then have t: "t = str_strip s @ rev (takeWhile isspace (rev t))"
    by (simp add: str_strip_def t_def)
  have "list_all isspace (takeWhile isspace s)"
    by (simp add: list_all_iff) (meson set_takeWhileD)
  moreover have "list_all isspace (rev (takeWhile isspace (rev t)))"
    by (simp add: list_all_iff) (meson set_takeWhileD)
  moreover have "s = takeWhile isspace s @ str_strip s @ rev (takeWhile isspace (rev t))"
    using s t by simp
  ultimately show ?thesis by blast
qed


lemma or_str_simps [simp]: "or_str None = []" "or_str (Some s) = s"
  by (simp_all add: or_str_def)

lemmas examples = example_link_def example_navigation_def example_spider_def example_meta_def

lemma example_start: "start_requests (example_spider s) = Inr [\<lparr>request_url = ''https://example.com/shoes'', callback = parse_navigation_callback, priority = 0, meta = example_meta s\<rparr>]"
  by (simp add: start_requests_def examples)

lemma example_parse_navigation:
  "map (\<lambda>r. (request_page_type r, priority r, page_params (meta r), allow_offsite (meta r)))
     (fst (parse_navigation (example_spider navigation) (example_meta navigation) example_navigation))
   = [(Some ''product'', 180, None, Some True),
      (Some ''product'', 105, None, Some True),
      (Some ''nextPage'', 100, Some [], None),
      (Some ''subCategories'', 0, Some [], None),
      (Some ''productNavigation-heuristics'', 50, Some [], None)]"
  by (simp add: parse_navigation_def examples builders get_parse_product_request_priority_def
      get_parse_navigation_request_priority_def get_probability_def or_float_def or_int_def
      or_str_def or_dict_def py_int_def NEXT_PAGE_PRIORITY_def example_products)


lemma py_int_nonneg: "0 \<le> x \<Longrightarrow> py_int x = \<lfloor>x\<rfloor>"
  by (simp add: py_int_def)

lemma py_int_mono:
  assumes "x \<le> y"
  shows "py_int x \<le> py_int y"
proof (cases "x < 0")
  case neg: True
  show ?thesis
  proof (cases "y < 0")
    case True
    with neg assms show ?thesis by (simp add: py_int_def ceiling_mono)
  next
    case False
    from neg have "py_int x \<le> 0" by (simp add: py_int_def ceiling_le_zero)
    moreover from False have "0 \<le> py_int y" by (simp add: py_int_def zero_le_floor)
    ultimately show ?thesis by linarith
  qed
next
  case False
  with assms show ?thesis by (simp add: py_int_def floor_mono)
qed

section \<open>Priorities\<close>

text \<open>
  Claim C5, as stated, fails: the priority is not always \<open>\<lfloor>100 * p\<rfloor> + 100\<close>. For the
  double nearest to 0.35 (a float between 0 and 1) the exact product \<open>100 * p\<close> lies
  just below 35, so the claimed priority is 134; Python rounds the product to the
  double 35.0 before \<^verbatim>\<open>int()\<close> truncates it, and the request has priority 135.
\<close>

theorem product_priority_rounds_before_truncating:
  "py_float 0.35 = double_035
   \<and> double_035 = 3152519739159347 / 2 ^ 53
   \<and> is_double double_035
   \<and> 0 \<le> double_035 \<and> double_035 \<le> 1
   \<and> priority (get_parse_product_request
         (example_link ''https://example.com/p/3'' (Some ''Mule'') (Some double_035)) None) = 135
   \<and> \<lfloor>100 * double_035\<rfloor> + 100 = 134"
proof -
  have "py_float 0.35 = double_035" by (rule example_literals)
  moreover have "double_035 = 3152519739159347 / 2 ^ 53" by (rule double_035_def)
  moreover have "is_double double_035" by (rule example_doubles)
  moreover have "0 \<le> double_035" and "double_035 \<le> 1" by (rule example_floors)+
  moreover have "priority (get_parse_product_request
         (example_link ''https://example.com/p/3'' (Some ''Mule'') (Some double_035)) None) = 135"
    by (simp add: product_priority_value
        example_link_def get_probability_def example_products py_int_def)
  moreover have "\<lfloor>100 * double_035\<rfloor> + 100 = 134"
    by (simp add: example_floors)
  ultimately show ?thesis by blast
qed

text \<open>
  Claim C5, amended. For a product link whose probability \<open>p\<close> is a float between 0
  and 1, the priority of the product request is \<open>\<lfloor>fl (100 * p)\<rfloor> + 100\<close>, where
  \<open>fl (100 * p)\<close> is the product rounded to the nearest double, as Python computes
  it; that is \<open>\<lfloor>100 * p\<rfloor> + 100\<close> or one more. The priority does not decrease when
  the probability grows, and a link without a probability is treated as
  probability 0, giving priority 100.
\<close>

theorem product_priority:
  "(get_probability request = Some p \<and> is_double p \<and> 0 \<le> p \<and> p \<le> 1
      \<longrightarrow> priority (get_parse_product_request request cb) = \<lfloor>double_round (100 * p)\<rfloor> + 100
        \<and> \<lfloor>100 * p\<rfloor> + 100 \<le> priority (get_parse_product_request request cb)
        \<and> priority (get_parse_product_request request cb) \<le> \<lfloor>100 * p\<rfloor> + 101)
   \<and> (get_probability r1 = Some p1 \<and> get_probability r2 = Some p2 \<and> 0 \<le> p1 \<and> p1 \<le> p2
      \<longrightarrow> priority (get_parse_product_request r1 cb1)
          \<le> priority (get_parse_product_request r2 cb2))
   \<and> (get_probability request = None
      \<longrightarrow> priority (get_parse_product_request request cb) = 100)"
proof -
  have known: "priority (get_parse_product_request request cb) = \<lfloor>double_round (100 * p)\<rfloor> + 100
      \<and> \<lfloor>100 * p\<rfloor> + 100 \<le> priority (get_parse_product_request request cb)
      \<and> priority (get_parse_product_request request cb) \<le> \<lfloor>100 * p\<rfloor> + 101"
    if "get_probability request = Some p" "is_double p" "0 \<le> p" "p \<le> 1"
  proof -
    have "priority (get_parse_product_request request cb) = py_int (float_mul 100 p) + 100"
      by (simp add: product_priority_value that(1))
    also have "\<dots> = \<lfloor>float_mul 100 p\<rfloor> + 100"
      using float_mul_100_nonneg [OF that(3)] by (simp add: py_int_nonneg)
    finally have eq: "priority (get_parse_product_request request cb) = \<lfloor>float_mul 100 p\<rfloor> + 100" .
    with float_mul_100_floor [OF that(2,3,4)] show ?thesis
      by (simp add: float_mul_100 [OF that(2)])
  qed
  have mono: "priority (get_parse_product_request r1 cb1)
      \<le> priority (get_parse_product_request r2 cb2)"
    if "get_probability r1 = Some p1" "get_probability r2 = Some p2" "0 \<le> p1" "p1 \<le> p2"
  proof -
    have "py_int (float_mul 100 p1) \<le> py_int (float_mul 100 p2)"
      using float_mul_100_mono [OF that(3,4)] by (rule py_int_mono)
    then show ?thesis by (simp add: product_priority_value that(1,2))
  qed
  have unknown: "priority (get_parse_product_request request cb) = 100"
    if "get_probability request = None"
    by (simp add: product_priority_value that py_int_def)
  from known mono unknown show ?thesis by blast
qed

theorem product_priority_witness:
  "priority (get_parse_product_request
       (example_link ''https://example.com/p/4'' (Some ''Pump'') (Some (1 / 2))) None) = 150
   \<and> priority (get_parse_product_request
       (example_link ''https://example.com/p/5'' (Some ''Flat'') (Some (1 / 4))) None)
     \<le> priority (get_parse_product_request
       (example_link ''https://example.com/p/4'' (Some ''Pump'') (Some (1 / 2))) None)
   \<and> priority (get_parse_product_request
       (example_link ''https://example.com/sandals'' (Some ''Sandals'') None) None) = 100"
proof -
  let ?half = "example_link ''https://example.com/p/4'' (Some ''Pump'') (Some (1 / 2))"
  let ?quarter = "example_link ''https://example.com/p/5'' (Some ''Flat'') (Some (1 / 4))"
  let ?unknown = "example_link ''https://example.com/sandals'' (Some ''Sandals'') None"
  have probs: "get_probability ?half = Some (1 / 2)" "get_probability ?quarter = Some (1 / 4)"
    "get_probability ?unknown = None"
    by (simp_all add: example_link_def get_probability_def)
  have fifty: "double_round 50 = 50"
    using double_round_of_int [of 50] by simp
  from product_priority [where request = ?half and p = "1 / 2" and cb = None
      and ?r1.0 = ?quarter and ?p1.0 = "1 / 4" and ?r2.0 = ?half and ?p2.0 = "1 / 2"
      and ?cb1.0 = None and ?cb2.0 = None]
    product_priority [where request = ?unknown and cb = None]
  show ?thesis
    by (simp add: probs example_doubles fifty)
qed

text \<open>
  Claim C6. A next-page request has priority exactly 100, the pagination bias,
  whatever the link's name, metadata or probability; so has every request tagged
  \<^verbatim>\<open>nextPage\<close> that \<^verbatim>\<open>parse_navigation\<close> emits.
\<close>

theorem nextpage_priority_fixed:
  "priority (get_nextpage_request request cb params) = 100
   \<and> priority (get_nextpage_request request cb params) = NEXT_PAGE_PRIORITY
   \<and> request_page_type (get_nextpage_request request cb params) = Some ''nextPage''
   \<and> (\<forall>r \<in> set (fst (parse_navigation self m nav)).
        request_page_type r = Some ''nextPage'' \<longrightarrow> priority r = 100)"
proof -
  have p: "priority (get_nextpage_request r cb' ps) = 100" for r cb' ps
    by (simp add: get_nextpage_request_def get_parse_navigation_request_def to_scrapy_def
        or_int_def NEXT_PAGE_PRIORITY_def)
  have "priority r = 100"
    if "r \<in> set (fst (parse_navigation self m nav))" "request_page_type r = Some ''nextPage''" for r
    using that set_parse_navigation [of self m nav]
    by (auto simp: p page_type_subcategory split: if_splits)
  then show ?thesis by (simp add: p NEXT_PAGE_PRIORITY_def)
qed


theorem nextpage_priority_fixed_witness:
  "get_nextpage_request (the (nextPage example_navigation)) None None
     \<in> set (fst (parse_navigation (example_spider navigation) (example_meta navigation)
                   example_navigation))
   \<and> request_page_type (get_nextpage_request (the (nextPage example_navigation)) None None)
       = Some ''nextPage''
   \<and> priority (get_nextpage_request (the (nextPage example_navigation)) None None) = 100"
  using nextpage_priority_fixed [of "the (nextPage example_navigation)" None None
      "example_spider navigation" "example_meta navigation" example_navigation]
  by (simp add: parse_navigation_def example_navigation_def)





text \<open>
  Claim C10, as stated, fails in the value it gives for the recomputed priority: that
  is not always \<open>\<lfloor>100 * p\<rfloor>\<close>. For the double nearest to 0.15 and an explicit
  \<^verbatim>\<open>priority=0\<close> the exact product \<open>100 * p\<close> lies just below 15, so the claimed
  priority is 14; Python rounds the product to the double 15.0 before \<^verbatim>\<open>int()\<close>
  truncates it, and the request has priority 15.
\<close>

theorem recomputed_priority_rounds_before_truncating:
  "py_float 0.15 = double_015
   \<and> double_015 = 5404319552844595 / 2 ^ 55
   \<and> is_double double_015
   \<and> 0 \<le> double_015 \<and> double_015 \<le> 1
   \<and> priority (get_parse_navigation_request
         (example_link ''https://example.com/clogs'' (Some ''Clogs'') (Some double_015))
         None None (Some 0) ''subCategories'') = 15
   \<and> \<lfloor>100 * double_015\<rfloor> = 14"
proof -
  have "py_float 0.15 = double_015" by (rule example_literals)
  moreover have "double_015 = 5404319552844595 / 2 ^ 55" by (rule double_015_def)
  moreover have "is_double double_015" by (rule example_doubles)
  moreover have "0 \<le> double_015" and "double_015 \<le> 1" by (rule example_floors)+
  moreover have "priority (get_parse_navigation_request
         (example_link ''https://example.com/clogs'' (Some ''Clogs'') (Some double_015))
         None None (Some 0) ''subCategories'') = 15"
    by (simp add: get_parse_navigation_request_def to_scrapy_def navigation_priority_value or_int_def
        example_link_def get_probability_def example_products py_int_def)
  moreover have "\<lfloor>100 * double_015\<rfloor> = 14"
    by (simp add: example_floors)
  ultimately show ?thesis by blast
qed

text \<open>
  Claim C10, amended. An explicit \<^verbatim>\<open>priority=0\<close> passed to
  \<^verbatim>\<open>get_parse_navigation_request\<close> (and so to \<^verbatim>\<open>get_subcategory_request\<close>) is not
  honoured: the fallback is chosen by truthiness, so the request is the one built
  when the priority is omitted, and its priority is recomputed from the link's
  probability as \<^verbatim>\<open>int(100 * probability)\<close>, the product rounded to the nearest
  double and then truncated (for a float \<open>p\<close> between 0 and 1: \<open>\<lfloor>100 * p\<rfloor>\<close> or one
  more), or 0 when there is no metadata or no probability.
\<close>

theorem explicit_zero_priority_not_honoured:
  "get_parse_navigation_request request cb params (Some 0) ptype
     = get_parse_navigation_request request cb params None ptype
   \<and> get_subcategory_request request cb params (Some 0)
     = get_subcategory_request request cb params None
   \<and> priority (get_parse_navigation_request request cb params (Some 0) ptype)
     = (case get_probability request of
          None \<Rightarrow> 0
        | Some p \<Rightarrow> py_int (float_mul 100 p))
   \<and> priority (snd (get_subcategory_request request cb params (Some 0)))
     = (case get_probability request of
          None \<Rightarrow> 0
        | Some p \<Rightarrow> py_int (float_mul 100 p))
   \<and> (get_probability request = Some q \<and> is_double q \<and> 0 \<le> q \<and> q \<le> 1
      \<longrightarrow> priority (get_parse_navigation_request request cb params (Some 0) ptype)
          = \<lfloor>double_round (100 * q)\<rfloor>
        \<and> \<lfloor>100 * q\<rfloor> \<le> priority (get_parse_navigation_request request cb params (Some 0) ptype)
        \<and> priority (get_parse_navigation_request request cb params (Some 0) ptype)
          \<le> \<lfloor>100 * q\<rfloor> + 1)"
proof -
  have same: "get_parse_navigation_request request cb params (Some 0) ptype
      = get_parse_navigation_request request cb params None ptype"
    by (simp add: get_parse_navigation_request_def or_int_def)
  have same_sub: "get_subcategory_request request cb params (Some 0)
      = get_subcategory_request request cb params None"
    by (simp add: get_subcategory_request_def get_parse_navigation_request_def or_int_def Let_def)
  have recomputed: "priority (get_parse_navigation_request request cb params (Some 0) ptype)
      = (case get_probability request of None \<Rightarrow> 0 | Some p \<Rightarrow> py_int (float_mul 100 p))"
    by (simp add: get_parse_navigation_request_def to_scrapy_def or_int_def
        navigation_priority_value)
  have recomputed_sub: "priority (snd (get_subcategory_request request cb params (Some 0)))
      = (case get_probability request of None \<Rightarrow> 0 | Some p \<Rightarrow> py_int (float_mul 100 p))"
    by (simp add: subcategory_priority_value or_int_def navigation_priority_value)
  have near: "priority (get_parse_navigation_request request cb params (Some 0) ptype)
          = \<lfloor>double_round (100 * q)\<rfloor>
        \<and> \<lfloor>100 * q\<rfloor> \<le> priority (get_parse_navigation_request request cb params (Some 0) ptype)
        \<and> priority (get_parse_navigation_request request cb params (Some 0) ptype)
          \<le> \<lfloor>100 * q\<rfloor> + 1"
    if "get_probability request = Some q" "is_double q" "0 \<le> q" "q \<le> 1"
  proof -
    have "priority (get_parse_navigation_request request cb params (Some 0) ptype)
        = py_int (float_mul 100 q)" by (simp add: recomputed that(1))
    also have "\<dots> = \<lfloor>float_mul 100 q\<rfloor>"
      using float_mul_100_nonneg [OF that(3)] by (simp add: py_int_nonneg)
    finally have "priority (get_parse_navigation_request request cb params (Some 0) ptype)
        = \<lfloor>float_mul 100 q\<rfloor>" .
    with float_mul_100_floor [OF that(2,3,4)] show ?thesis
      by (simp add: float_mul_100 [OF that(2)])
  qed
  from same same_sub recomputed recomputed_sub near show ?thesis by blast
qed

theorem explicit_zero_priority_not_honoured_witness:
  "priority (get_parse_navigation_request
       (example_link ''https://example.com/misc'' (Some ''[heuristics] Shoes'') (Some (1 / 2)))
       None None (Some 0) ''subCategories'') = 50
   \<and> get_parse_navigation_request
       (example_link ''https://example.com/misc'' (Some ''[heuristics] Shoes'') (Some (1 / 2)))
       None None (Some 0) ''subCategories''
     = get_parse_navigation_request
       (example_link ''https://example.com/misc'' (Some ''[heuristics] Shoes'') (Some (1 / 2)))
       None None None ''subCategories''"
proof -
  let ?r = "example_link ''https://example.com/misc'' (Some ''[heuristics] Shoes'') (Some (1 / 2))"
  have fifty: "double_round 50 = 50"
    using double_round_of_int [of 50] by simp
  have prob: "get_probability ?r = Some (1 / 2)"
    by (simp add: example_link_def get_probability_def)
  note t = explicit_zero_priority_not_honoured [where request = ?r and q = "1 / 2"
      and cb = None and params = None and ptype = "''subCategories''"]
  from t have same: "get_parse_navigation_request ?r None None (Some 0) ''subCategories''
      = get_parse_navigation_request ?r None None None ''subCategories''"
    by (rule conjunct1)
  from t have "priority (get_parse_navigation_request ?r None None (Some 0) ''subCategories'')
      = (case get_probability ?r of None \<Rightarrow> 0 | Some p \<Rightarrow> py_int (float_mul 100 p))"
    by blast
  then have fifty_a: "priority (get_parse_navigation_request ?r None None (Some 0) ''subCategories'') = 50"
    by (simp add: prob example_products py_int_def)
  from t have "get_probability ?r = Some (1 / 2) \<and> is_double (1 / 2)
      \<and> (0::real) \<le> 1 / 2 \<and> (1 / 2 :: real) \<le> 1
    \<longrightarrow> priority (get_parse_navigation_request ?r None None (Some 0) ''subCategories'')
        = \<lfloor>double_round (100 * (1 / 2))\<rfloor>"
    by blast
  with prob example_doubles(1)
  have fifty_b: "priority (get_parse_navigation_request ?r None None (Some 0) ''subCategories'')
      = \<lfloor>double_round (100 * (1 / 2))\<rfloor>"
    by simp
  from same fifty_a fifty_b show ?thesis by simp
qed

section \<open>Offsite marker\<close>

text \<open>
  Claim C9. Every request built by \<^verbatim>\<open>get_parse_product_request\<close> carries
  \<^verbatim>\<open>allow_offsite = True\<close> in its \<^verbatim>\<open>meta\<close>; the requests built for the next page and
  for subcategories never carry the key; among the requests \<^verbatim>\<open>parse_navigation\<close>
  emits, the marker is set exactly on those tagged \<^verbatim>\<open>product\<close>.
\<close>

theorem offsite_only_for_products:
  "allow_offsite (meta (get_parse_product_request request cb)) = Some True
   \<and> allow_offsite (meta (get_parse_navigation_request request cb' params prio ptype)) = None
   \<and> allow_offsite (meta (get_nextpage_request request cb' params)) = None
   \<and> allow_offsite (meta (snd (get_subcategory_request request cb' params prio))) = None
   \<and> (\<forall>r \<in> set (fst (parse_navigation self m nav)).
        (allow_offsite (meta r) = Some True) = (request_page_type r = Some ''product''))"
proof -
  have prod: "allow_offsite (meta (get_parse_product_request r c)) = Some True" for r c
    by (simp add: get_parse_product_request_def to_scrapy_def Let_def)
  have nav: "allow_offsite (meta (get_parse_navigation_request r c ps pr pt)) = None"
    for r c ps pr pt
    by (simp add: get_parse_navigation_request_def to_scrapy_def)
  have nxt: "allow_offsite (meta (get_nextpage_request r c ps)) = None" for r c ps
    by (simp add: get_nextpage_request_def nav)
  have sub: "allow_offsite (meta (snd (get_subcategory_request r c ps pr))) = None"
    for r c ps pr
    by (simp add: get_subcategory_request_def Let_def nav)
  have "(allow_offsite (meta r) = Some True) = (request_page_type r = Some ''product'')"
    if "r \<in> set (fst (parse_navigation self m nav))" for r
    using that set_parse_navigation [of self m nav]
    by (auto simp: prod nxt sub page_type_subcategory split: if_splits)
  then show ?thesis by (simp add: prod nav nxt sub)
qed

theorem offsite_only_for_products_witness:
  "get_parse_product_request (example_link ''https://example.com/p/1'' (Some ''Boot'') (Some 0.8)) None
     \<in> set (fst (parse_navigation (example_spider navigation) (example_meta navigation)
                   example_navigation))
   \<and> allow_offsite (meta (get_parse_product_request
         (example_link ''https://example.com/p/1'' (Some ''Boot'') (Some 0.8)) None)) = Some True
   \<and> request_page_type (get_parse_product_request
         (example_link ''https://example.com/p/1'' (Some ''Boot'') (Some 0.8)) None) = Some ''product''"
  using offsite_only_for_products [where
      request = "example_link ''https://example.com/p/1'' (Some ''Boot'') (Some 0.8)"
      and cb = None and self = "example_spider navigation"
      and m = "example_meta navigation" and nav = example_navigation]
  by (simp add: parse_navigation_def example_navigation_def)

section \<open>Which links are followed\<close>

text \<open>
  Claim C3. Under \<open>pagination_only\<close> no request emitted by \<^verbatim>\<open>parse_navigation\<close> is
  tagged \<^verbatim>\<open>subCategories\<close> or \<^verbatim>\<open>productNavigation-heuristics\<close>, whatever subcategory
  links the navigation result has; under \<open>full\<close> and \<open>navigation\<close> the requests
  with these tags are, in order, the requests built from the subcategory links,
  one per link.
\<close>

theorem subcategories_gated_by_strategy:
  "(crawl_strategy self = pagination_only \<longrightarrow>
      (\<forall>r \<in> set (fst (parse_navigation self m nav)).
         request_page_type r \<noteq> Some ''subCategories''
         \<and> request_page_type r \<noteq> Some ''productNavigation-heuristics''))
   \<and> (crawl_strategy self \<noteq> pagination_only \<longrightarrow>
        filter is_subcategory_request (fst (parse_navigation self m nav))
          = map (\<lambda>c. snd (get_subcategory_request c None (page_params m) None))
              (case subCategories nav of None \<Rightarrow> [] | Some xs \<Rightarrow> xs)
        \<and> length (filter is_subcategory_request (fst (parse_navigation self m nav)))
          = length (case subCategories nav of None \<Rightarrow> [] | Some xs \<Rightarrow> xs))"
proof -
  have gated: "\<not> is_subcategory_request r"
    if "crawl_strategy self = pagination_only" "r \<in> set (fst (parse_navigation self m nav))" for r
    using that by (auto simp: parse_navigation_requests split: option.splits if_splits)
  have followed: "filter is_subcategory_request (fst (parse_navigation self m nav))
      = map (\<lambda>c. snd (get_subcategory_request c None (page_params m) None))
          (case subCategories nav of None \<Rightarrow> [] | Some xs \<Rightarrow> xs)"
    if "crawl_strategy self \<noteq> pagination_only"
    using that by (simp add: parse_navigation_requests filter_map o_def split: option.splits)
  have counted: "length (filter is_subcategory_request (fst (parse_navigation self m nav)))
      = length (case subCategories nav of None \<Rightarrow> [] | Some xs \<Rightarrow> xs)"
    if "crawl_strategy self \<noteq> pagination_only"
    by (simp add: followed [OF that])
  from gated followed counted show ?thesis
    by (auto simp: is_subcategory_request_def)
qed

theorem subcategories_gated_by_strategy_witness:
  "crawl_strategy (example_spider pagination_only) = pagination_only
   \<and> get_parse_product_request (example_link ''https://example.com/p/1'' (Some ''Boot'') (Some 0.8)) None
       \<in> set (fst (parse_navigation (example_spider pagination_only)
                     (example_meta pagination_only) example_navigation))
   \<and> request_page_type (get_parse_product_request
         (example_link ''https://example.com/p/1'' (Some ''Boot'') (Some 0.8)) None)
       \<noteq> Some ''subCategories''
   \<and> crawl_strategy (example_spider navigation) \<noteq> pagination_only
   \<and> length (filter is_subcategory_request
         (fst (parse_navigation (example_spider navigation) (example_meta navigation)
                example_navigation))) = 2
   \<and> map request_page_type (filter is_subcategory_request
         (fst (parse_navigation (example_spider navigation) (example_meta navigation)
                example_navigation)))
       = [Some ''subCategories'', Some ''productNavigation-heuristics'']"
  using subcategories_gated_by_strategy [of "example_spider pagination_only"
      "example_meta pagination_only" example_navigation]
    subcategories_gated_by_strategy [of "example_spider navigation"
      "example_meta navigation" example_navigation]
  by (simp add: parse_navigation_requests example_navigation_def example_spider_def
      example_link_def page_type_subcategory)

text \<open>
  Claim C4. When the navigation result has a next-page link and its product list
  is empty or absent, \<^verbatim>\<open>parse_navigation\<close> emits no request tagged \<^verbatim>\<open>nextPage\<close>
  and logs the skip; when the product list is not empty, it emits exactly one
  request tagged \<^verbatim>\<open>nextPage\<close>, the one for that link, and logs nothing.
\<close>

theorem nextpage_needs_products:
  "(nextPage nav = Some n \<and> (items nav = None \<or> items nav = Some [])
      \<longrightarrow> filter is_nextpage_request (fst (parse_navigation self m nav)) = []
        \<and> snd (parse_navigation self m nav) = [IgnoringNextPage n (page_url nav)])
   \<and> (nextPage nav = Some n \<and> items nav = Some xs \<and> xs \<noteq> []
      \<longrightarrow> filter is_nextpage_request (fst (parse_navigation self m nav))
          = [get_nextpage_request n None None]
        \<and> snd (parse_navigation self m nav) = [])"
proof -
  have logs: "snd (parse_navigation self m nav) =
      (case nextPage nav of None \<Rightarrow> []
       | Some n \<Rightarrow> if (case items nav of None \<Rightarrow> [] | Some xs \<Rightarrow> xs) = []
                   then [IgnoringNextPage n (page_url nav)] else [])"
    by (simp add: parse_navigation_def Let_def split: option.splits)
  show ?thesis
    by (auto simp: parse_navigation_requests logs filter_map o_def split: option.splits)
qed

theorem nextpage_needs_products_witness:
  "filter is_nextpage_request
     (fst (parse_navigation (example_spider navigation) (example_meta navigation)
            (example_navigation\<lparr>items := Some []\<rparr>))) = []
   \<and> filter is_nextpage_request
     (fst (parse_navigation (example_spider navigation) (example_meta navigation)
            example_navigation))
     = [get_nextpage_request \<lparr>url = ''https://example.com/shoes?page=2'', name = None,
                               metadata = NoAttribute\<rparr> None None]"
  using nextpage_needs_products [of "example_navigation\<lparr>items := Some []\<rparr>"
      "the (nextPage example_navigation)" "example_spider navigation"
      "example_meta navigation" "[]"]
    nextpage_needs_products [of example_navigation
      "the (nextPage example_navigation)" "example_spider navigation"
      "example_meta navigation" "the (items example_navigation)"]
  by (simp add: example_navigation_def)

section \<open>The probability filter\<close>

text \<open>
  Claim C2. \<^verbatim>\<open>parse_product\<close> yields the product when its probability is \<^verbatim>\<open>None\<close>
  or at least 0.1 (0.1 itself is accepted) and leaves the statistics alone; below
  0.1 it yields nothing, adds exactly one to the counter
  \<^verbatim>\<open>drop_item/product/low_probability\<close> and changes no other counter. The function
  has no failing branch: its result is a plain value in every case.
\<close>

theorem low_probability_products_dropped:
  "(product_get_probability product = None
      \<longrightarrow> parse_product stats response_url product = ([product], stats, []))
   \<and> (product_get_probability product = Some q \<and> 0.1 \<le> q
      \<longrightarrow> parse_product stats response_url product = ([product], stats, []))
   \<and> (product_get_probability product = Some p \<and> p < 0.1
      \<longrightarrow> fst (parse_product stats response_url product) = []
        \<and> get_value (fst (snd (parse_product stats response_url product)))
              ''drop_item/product/low_probability'' 0
          = get_value stats ''drop_item/product/low_probability'' 0 + 1
        \<and> (\<forall>key. key \<noteq> ''drop_item/product/low_probability''
              \<longrightarrow> fst (snd (parse_product stats response_url product)) key = stats key))"
  by (auto simp: parse_product_def Let_def inc_value_def get_value_def split: option.splits)


theorem low_probability_products_dropped_witness:
  "parse_product Map.empty ''https://example.com/p/1'' (example_product (Some 0.1))
     = ([example_product (Some 0.1)], Map.empty, [])
   \<and> fst (parse_product Map.empty ''https://example.com/p/1'' (example_product (Some 0.0999))) = []
   \<and> get_value (fst (snd (parse_product Map.empty ''https://example.com/p/1''
          (example_product (Some 0.0999))))) ''drop_item/product/low_probability'' 0 = 1"
  using low_probability_products_dropped [where product = "example_product (Some 0.1)"
      and q = "0.1" and stats = Map.empty and response_url = "''https://example.com/p/1''"]
    low_probability_products_dropped [where product = "example_product (Some 0.0999)"
      and p = "0.0999" and stats = Map.empty and response_url = "''https://example.com/p/1''"]
  by (simp add: example_product_def product_get_probability_def get_value_def)

section \<open>Links found by heuristics\<close>

text \<open>
  Claim C8. A subcategory link whose name contains \<^verbatim>\<open>[heuristics]\<close> gives a request
  tagged \<^verbatim>\<open>productNavigation-heuristics\<close>, and the link's name becomes the old name
  with the marker replaced by nothing and the whitespace at both ends stripped: a
  name with one occurrence of the marker becomes what is before and after it,
  stripped, so \<^verbatim>\<open>[heuristics] Shoes\<close> becomes \<^verbatim>\<open>Shoes\<close>. A link whose name lacks the
  marker gives a request tagged \<^verbatim>\<open>subCategories\<close> and is left unchanged.
\<close>

theorem heuristics_links_retagged:
  "(str_contains (or_str (name request)) ''[heuristics]'' \<longrightarrow>
      request_page_type (snd (get_subcategory_request request cb params prio))
        = Some ''productNavigation-heuristics''
      \<and> name (fst (get_subcategory_request request cb params prio))
        = Some (str_strip (str_replace (or_str (name request)) ''[heuristics]'' []))
      \<and> map_option log_name
          (crawling_logs (meta (snd (get_subcategory_request request cb params prio))))
        = Some (name (fst (get_subcategory_request request cb params prio)))
      \<and> url (fst (get_subcategory_request request cb params prio)) = url request
      \<and> metadata (fst (get_subcategory_request request cb params prio)) = metadata request)
   \<and> (name request = Some (pre @ ''[heuristics]'' @ post)
        \<and> \<not> str_contains (pre @ butlast ''[heuristics]'') ''[heuristics]''
        \<and> \<not> str_contains post ''[heuristics]''
      \<longrightarrow> request_page_type (snd (get_subcategory_request request cb params prio))
          = Some ''productNavigation-heuristics''
        \<and> name (fst (get_subcategory_request request cb params prio))
          = Some (str_strip (pre @ post)))
   \<and> (str_contains (or_str (name request)) ''[heuristics]''
        \<and> name (fst (get_subcategory_request request cb params prio)) = Some n \<and> n \<noteq> []
      \<longrightarrow> \<not> isspace (hd n) \<and> \<not> isspace (last n))
   \<and> (\<not> str_contains (or_str (name request)) ''[heuristics]'' \<longrightarrow>
      request_page_type (snd (get_subcategory_request request cb params prio))
        = Some ''subCategories''
      \<and> fst (get_subcategory_request request cb params prio) = request
      \<and> map_option log_name
          (crawling_logs (meta (snd (get_subcategory_request request cb params prio))))
        = Some (Some (or_str (name request))))"
proof -
  let ?M = "''[heuristics]''"
  let ?out = "get_subcategory_request request cb params prio"
  have marked: "request_page_type (snd ?out) = Some ''productNavigation-heuristics''
      \<and> name (fst ?out) = Some (str_strip (str_replace (or_str (name request)) ?M []))
      \<and> map_option log_name (crawling_logs (meta (snd ?out))) = Some (name (fst ?out))
      \<and> url (fst ?out) = url request \<and> metadata (fst ?out) = metadata request"
    if "str_contains (or_str (name request)) ?M"
    using that
    by (simp add: get_subcategory_request_def get_parse_navigation_request_def to_scrapy_def
        request_page_type_def Let_def)
  have plain: "request_page_type (snd ?out) = Some ''subCategories'' \<and> fst ?out = request
      \<and> map_option log_name (crawling_logs (meta (snd ?out))) = Some (Some (or_str (name request)))"
    if "\<not> str_contains (or_str (name request)) ?M"
    using that
    by (simp add: get_subcategory_request_def get_parse_navigation_request_def to_scrapy_def
        request_page_type_def Let_def)
  have once: "request_page_type (snd ?out) = Some ''productNavigation-heuristics''
      \<and> name (fst ?out) = Some (str_strip (pre @ post))"
    if n: "name request = Some (pre @ ?M @ post)"
      and a: "\<not> str_contains (pre @ butlast ?M) ?M" and b: "\<not> str_contains post ?M"
  proof -
    have "str_contains (pre @ ?M @ post) ?M"
      unfolding str_contains_iff by blast
    then have c: "str_contains (or_str (name request)) ?M" by (simp add: n)
    have "str_replace (pre @ ?M @ post) ?M [] = pre @ post"
      by (rule str_replace_once [OF _ a b]) simp
    with marked [OF c] show ?thesis by (simp add: n)
  qed
  have ends: "\<not> isspace (hd n) \<and> \<not> isspace (last n)"
    if "str_contains (or_str (name request)) ?M" "name (fst ?out) = Some n" "n \<noteq> []"
  proof -
    from marked [OF that(1)] that(2)
    have "n = str_strip (str_replace (or_str (name request)) ?M [])" by simp
    with that(3) str_strip_ends show ?thesis by blast
  qed
  from marked plain once ends show ?thesis by blast
qed

theorem heuristics_links_retagged_witness:
  "request_page_type (snd (get_subcategory_request
       (example_link ''https://example.com/misc'' (Some ''[heuristics] Shoes'') (Some 0.5))
       None None None)) = Some ''productNavigation-heuristics''
   \<and> name (fst (get_subcategory_request
       (example_link ''https://example.com/misc'' (Some ''[heuristics] Shoes'') (Some 0.5))
       None None None)) = Some ''Shoes''
   \<and> request_page_type (snd (get_subcategory_request
       (example_link ''https://example.com/sandals'' (Some ''Sandals'') None)
       None None None)) = Some ''subCategories''
   \<and> name (fst (get_subcategory_request
       (example_link ''https://example.com/sandals'' (Some ''Sandals'') None)
       None None None)) = Some ''Sandals''"
  using heuristics_links_retagged [where
      request = "example_link ''https://example.com/misc'' (Some ''[heuristics] Shoes'') (Some 0.5)"
      and pre = "[]" and post = "'' Shoes''" and n = "''Shoes''"
      and cb = None and params = None and prio = None]
    heuristics_links_retagged [where
      request = "example_link ''https://example.com/sandals'' (Some ''Sandals'') None"
      and pre = "[]" and post = "[]" and n = "[]"
      and cb = None and params = None and prio = None]
  by (simp add: example_link_def str_strip_def isspace_def)

section \<open>Page parameters\<close>

lemma or_dict_simps [simp]: "or_dict None = []" "or_dict (Some d) = d"
  by (simp_all add: or_dict_def)

lemma page_params_product [simp]:
  "page_params (meta (get_parse_product_request r cb)) = None"
  by (simp add: get_parse_product_request_def to_scrapy_def Let_def)

lemma page_params_nextpage [simp]:
  "page_params (meta (get_nextpage_request r cb params)) = Some (or_dict params)"
  by (simp add: get_nextpage_request_def get_parse_navigation_request_def to_scrapy_def)

lemma page_params_subcategory:
  "page_params (meta (snd (get_subcategory_request r cb params prio))) =
     Some (if str_contains (or_str (name r)) ''[heuristics]'' then or_dict params else [])"
  by (simp add: get_subcategory_request_def get_parse_navigation_request_def to_scrapy_def Let_def)

lemma emitted_page_params:
  assumes "r \<in> set (fst (parse_navigation self m nav))"
  shows "page_params (meta r) =
     (if request_page_type r = Some ''product'' then None
      else if request_page_type r = Some ''productNavigation-heuristics''
        then Some (or_dict (page_params m))
      else Some [])"
  using assms set_parse_navigation [of self m nav]
  by (auto simp: page_type_subcategory page_params_subcategory split: if_splits)

lemma start_page_params:
  assumes "start_requests self = Inr rs" and "r \<in> set rs"
  shows "page_params (meta r) =
     Some (if crawl_strategy self = full then [(''full_domain'', hd (allowed_domains self))] else [])"
  using assms by (auto simp: start_requests_def Let_def split: if_splits)

lemma crawl_page_params:
  assumes "crawl_request self r"
  shows "page_params (meta r) = None \<or> page_params (meta r) = Some []
     \<or> (crawl_strategy self = full
        \<and> page_params (meta r) = Some [(''full_domain'', hd (allowed_domains self))])"
  using assms
proof (induction rule: crawl_request.induct)
  case (start rs r)
  then show ?case by (auto simp: start_page_params)
next
  case (follow r r' nav)
  from follow.hyps(3) have "page_params (meta r') = None \<or> page_params (meta r') = Some []
      \<or> page_params (meta r') = Some (or_dict (page_params (meta r)))"
    by (auto simp: emitted_page_params)
  with follow.IH show ?case by auto
qed


lemma start_page_type:
  assumes "start_requests self = Inr rs" and "r \<in> set rs"
  shows "request_page_type r = Some ''productNavigation''"
  using assms by (auto simp: start_requests_def request_page_type_def Let_def split: if_splits)

lemma example_crawl_start:
  "crawl_request (example_spider s)
     \<lparr>request_url = ''https://example.com/shoes'', callback = parse_navigation_callback,
      priority = 0, meta = example_meta s\<rparr>"
  by (rule crawl_request.start [OF example_start]) simp

lemma example_subcategories:
  "s \<noteq> pagination_only \<Longrightarrow>
   set (fst (parse_navigation (example_spider s) (example_meta s) example_navigation)) \<supseteq>
     {snd (get_subcategory_request
        (example_link ''https://example.com/sandals'' (Some ''Sandals'') None)
        None (page_params (example_meta s)) None),
      snd (get_subcategory_request
        (example_link ''https://example.com/misc'' (Some ''[heuristics] Shoes'') (Some 0.5))
        None (page_params (example_meta s)) None)}"
  by (simp add: parse_navigation_requests example_navigation_def example_spider_def)

lemma example_crawl_subcategory:
  assumes "s \<noteq> pagination_only"
    and "c = example_link ''https://example.com/sandals'' (Some ''Sandals'') None
       \<or> c = example_link ''https://example.com/misc'' (Some ''[heuristics] Shoes'') (Some 0.5)"
  shows "crawl_request (example_spider s)
     (snd (get_subcategory_request c None (page_params (example_meta s)) None))"
proof (rule crawl_request.follow [OF example_crawl_start])
  show "callback \<lparr>request_url = ''https://example.com/shoes'',
      callback = parse_navigation_callback, priority = 0, meta = example_meta s\<rparr>
    = parse_navigation_callback" by simp
  show "snd (get_subcategory_request c None (page_params (example_meta s)) None)
    \<in> set (fst (parse_navigation (example_spider s)
        (meta \<lparr>request_url = ''https://example.com/shoes'',
          callback = parse_navigation_callback, priority = 0, meta = example_meta s\<rparr>)
        example_navigation))"
    using example_subcategories [OF assms(1)] assms(2) by auto
qed

text \<open>
  Claim C1, as stated, fails. Under \<open>full\<close> the start request carries the
  \<^verbatim>\<open>full_domain\<close> entry, yet the request for a plain subcategory link of the start
  page is tagged \<^verbatim>\<open>subCategories\<close> and carries an empty \<^verbatim>\<open>page_params\<close>:
  \<^verbatim>\<open>get_subcategory_request\<close> sets \<^verbatim>\<open>page_params = None\<close> for every link whose name
  lacks the heuristics marker.
\<close>

theorem full_plain_subcategory_has_empty_page_params:
  "crawl_strategy (example_spider full) = full
   \<and> start_requests (example_spider full)
     = Inr [\<lparr>request_url = ''https://example.com/shoes'', callback = parse_navigation_callback,
             priority = 0, meta = example_meta full\<rparr>]
   \<and> page_params (example_meta full) = Some [(''full_domain'', ''example.com'')]
   \<and> snd (get_subcategory_request
         (example_link ''https://example.com/sandals'' (Some ''Sandals'') None)
         None (page_params (example_meta full)) None)
       \<in> set (fst (parse_navigation (example_spider full) (example_meta full)
                     example_navigation))
   \<and> request_page_type (snd (get_subcategory_request
         (example_link ''https://example.com/sandals'' (Some ''Sandals'') None)
         None (page_params (example_meta full)) None)) = Some ''subCategories''
   \<and> page_params (meta (snd (get_subcategory_request
         (example_link ''https://example.com/sandals'' (Some ''Sandals'') None)
         None (page_params (example_meta full)) None))) = Some []"
proof -
  have "snd (get_subcategory_request
         (example_link ''https://example.com/sandals'' (Some ''Sandals'') None)
         None (page_params (example_meta full)) None)
       \<in> set (fst (parse_navigation (example_spider full) (example_meta full)
                     example_navigation))"
    using example_subcategories [of full] by simp
  then show ?thesis
    by (simp add: example_start page_type_subcategory page_params_subcategory)
      (simp add: example_spider_def example_meta_def example_link_def)
qed

text \<open>
  Claim C1, amended. Under every strategy a request tagged \<^verbatim>\<open>subCategories\<close>
  carries an empty \<^verbatim>\<open>page_params\<close>, and a request tagged
  \<^verbatim>\<open>productNavigation-heuristics\<close> carries the \<^verbatim>\<open>page_params\<close> of the response it was
  extracted from (empty when that response has none). Under \<open>full\<close> the
  heuristics-tagged requests extracted from a start response carry the non-empty
  \<^verbatim>\<open>full_domain\<close> entry set at crawl start, and every request of the crawl carries
  that entry, an empty \<^verbatim>\<open>page_params\<close> or none. Under \<open>navigation\<close> and
  \<open>pagination_only\<close> every subcategory request of the crawl carries an empty
  \<^verbatim>\<open>page_params\<close>.
\<close>

theorem subcategory_page_params:
  "(\<forall>r \<in> set (fst (parse_navigation self m nav)).
      (request_page_type r = Some ''subCategories'' \<longrightarrow> page_params (meta r) = Some [])
      \<and> (request_page_type r = Some ''productNavigation-heuristics''
          \<longrightarrow> page_params (meta r) = Some (or_dict (page_params m))))
   \<and> (crawl_strategy self = full \<and> start_requests self = Inr rs \<and> r0 \<in> set rs
        \<and> r1 \<in> set (fst (parse_navigation self (meta r0) nav0))
        \<and> request_page_type r1 = Some ''productNavigation-heuristics''
      \<longrightarrow> allowed_domains self \<noteq> []
        \<and> page_params (meta r1) = Some [(''full_domain'', hd (allowed_domains self))])
   \<and> (crawl_strategy self = full \<and> crawl_request self r2
      \<longrightarrow> page_params (meta r2) = None \<or> page_params (meta r2) = Some []
        \<or> page_params (meta r2) = Some [(''full_domain'', hd (allowed_domains self))])
   \<and> (crawl_strategy self \<noteq> full \<and> crawl_request self r3 \<and> is_subcategory_request r3
      \<longrightarrow> page_params (meta r3) = Some [])"
proof -
  have emitted: "(request_page_type r = Some ''subCategories'' \<longrightarrow> page_params (meta r) = Some [])
      \<and> (request_page_type r = Some ''productNavigation-heuristics''
          \<longrightarrow> page_params (meta r) = Some (or_dict (page_params m)))"
    if "r \<in> set (fst (parse_navigation self m nav))" for r
    by (simp add: emitted_page_params [OF that])
  have first: "allowed_domains self \<noteq> []
      \<and> page_params (meta r1) = Some [(''full_domain'', hd (allowed_domains self))]"
    if "crawl_strategy self = full" "start_requests self = Inr rs" "r0 \<in> set rs"
      "r1 \<in> set (fst (parse_navigation self (meta r0) nav0))"
      "request_page_type r1 = Some ''productNavigation-heuristics''"
  proof -
    from that(1,2) have "allowed_domains self \<noteq> []"
      by (auto simp: start_requests_def split: if_splits)
    moreover from that have "page_params (meta r1)
        = Some [(''full_domain'', hd (allowed_domains self))]"
      by (simp add: emitted_page_params [OF that(4)] start_page_params [OF that(2,3)])
    ultimately show ?thesis by simp
  qed
  have anywhere: "page_params (meta r2) = None \<or> page_params (meta r2) = Some []
      \<or> page_params (meta r2) = Some [(''full_domain'', hd (allowed_domains self))]"
    if "crawl_request self r2"
    using crawl_page_params [OF that] by blast
  have restricted: "page_params (meta r3) = Some []"
    if ne: "crawl_strategy self \<noteq> full" and c: "crawl_request self r3"
      and sub: "is_subcategory_request r3"
    using c
  proof (cases rule: crawl_request.cases)
    case (start rs')
    with sub show ?thesis
      by (auto simp: is_subcategory_request_def dest: start_page_type)
  next
    case (follow r nav')
    from crawl_page_params [OF follow(1)] ne
    have "or_dict (page_params (meta r)) = []" by auto
    with follow(3) sub show ?thesis
      by (auto simp: emitted_page_params is_subcategory_request_def)
  qed
  from emitted first anywhere restricted show ?thesis by blast
qed


theorem subcategory_page_params_witness:
  "page_params (meta (snd (get_subcategory_request
       (example_link ''https://example.com/misc'' (Some ''[heuristics] Shoes'') (Some 0.5))
       None (page_params (example_meta full)) None)))
     = Some [(''full_domain'', ''example.com'')]
   \<and> page_params (meta (snd (get_subcategory_request
       (example_link ''https://example.com/sandals'' (Some ''Sandals'') None)
       None (page_params (example_meta full)) None))) = Some []
   \<and> page_params (meta (snd (get_subcategory_request
       (example_link ''https://example.com/misc'' (Some ''[heuristics] Shoes'') (Some 0.5))
       None (page_params (example_meta navigation)) None))) = Some []"
proof -
  let ?heur = "example_link ''https://example.com/misc'' (Some ''[heuristics] Shoes'') (Some 0.5)"
  let ?plain = "example_link ''https://example.com/sandals'' (Some ''Sandals'') None"
  let ?start = "\<lambda>s. \<lparr>request_url = ''https://example.com/shoes'',
      callback = parse_navigation_callback, priority = 0, meta = example_meta s\<rparr>"
  let ?H = "\<lambda>s. snd (get_subcategory_request ?heur None (page_params (example_meta s)) None)"
  let ?P = "\<lambda>s. snd (get_subcategory_request ?plain None (page_params (example_meta s)) None)"
  have strategy: "crawl_strategy (example_spider full) = full"
    "crawl_strategy (example_spider navigation) \<noteq> full"
    by (simp_all add: example_spider_def)
  have domains: "hd (allowed_domains (example_spider full)) = ''example.com''"
    by (simp add: example_spider_def)
  have emitted: "?H full \<in> set (fst (parse_navigation (example_spider full)
        (meta (?start full)) example_navigation))"
    "?P full \<in> set (fst (parse_navigation (example_spider full)
        (example_meta full) example_navigation))"
    using example_subcategories [of full] by simp_all
  have tags: "request_page_type (?H full) = Some ''productNavigation-heuristics''"
    "request_page_type (?P full) = Some ''subCategories''"
    "is_subcategory_request (?H navigation)"
    by (simp_all add: page_type_subcategory example_link_def)
  have crawl: "crawl_request (example_spider navigation) (?H navigation)"
    by (rule example_crawl_subcategory) simp_all
  have "page_params (meta (?H full)) = Some [(''full_domain'', ''example.com'')]"
    using subcategory_page_params [where self = "example_spider full" and rs = "[?start full]"
        and ?r0.0 = "?start full" and ?r1.0 = "?H full" and ?nav0.0 = example_navigation]
      strategy(1) emitted(1) tags(1) domains
    by (simp add: example_start)
  moreover have "page_params (meta (?P full)) = Some []"
    using subcategory_page_params [where self = "example_spider full"
        and m = "example_meta full" and nav = example_navigation]
      emitted(2) tags(2)
    by blast
  moreover have "page_params (meta (?H navigation)) = Some []"
    using subcategory_page_params [where self = "example_spider navigation"
        and ?r3.0 = "?H navigation"]
      strategy(2) crawl tags(3)
    by blast
  ultimately show ?thesis by simp
qed

end
